theory Spec2Isabelle
  imports Complex_Main "HOL-Library.Word"
begin

section \<open>The STK500v1 uploader of \<^verbatim>\<open>src/services/serialService.ts\<close>\<close>

text \<open>
  The development embeds class \<^verbatim>\<open>ArduinoUploader\<close>. The serial port, its two streams
  and the caller's progress callback are external to the class; they are described by
  the behaviour they show to the uploader: a script of what successive
  \<^verbatim>\<open>reader.read()\<close> calls deliver, which \<^verbatim>\<open>writer.write\<close> calls reject, whether
  \<^verbatim>\<open>reader.cancel()\<close> and \<^verbatim>\<open>writer.close()\<close> reject, on which snapshots the
  callback throws, and whether a value thrown by one of them converts to a string. Every \<^verbatim>\<open>await\<close> of the source is a sequence point of the model.
\<close>

subsection \<open>Values\<close>

type_synonym byte = "8 word"

text \<open>
  A JavaScript number as \<^verbatim>\<open>parseInt\<close> produces it: an integer, or \<^verbatim>\<open>NaN\<close>
  (\<open>None\<close>). Negative zero is identified with zero: the source only applies
  \<^verbatim>\<open>===\<close>, \<^verbatim>\<open>></\<close>, \<^verbatim>\<open>&\<close>, \<^verbatim>\<open>>>\<close> and the conversion to \<^verbatim>\<open>Uint8Array\<close> to these
  numbers, and none of them tells the two zeros apart.
\<close>

type_synonym jsnum = "int option"

datatype error =
    NoPortAvailable
  | WriterNotAvailable
  | ReaderNotAvailable
  | ResponseTimeout nat nat
  | SyncFailed
  | EnterProgModeFailed
  | SetAddressFailed jsnum
  | WritePageFailed jsnum
  | LeaveProgModeFailed
  | StreamLocked
  | ReadRejected
  | WriteRejected
  | CallbackThrew
  | NotConvertible

text \<open>
  What an asynchronous call does: it returns a value, throws, or never settles
  (\<open>Blocks\<close>: the awaited promise stays pending, so neither \<^verbatim>\<open>catch\<close> nor
  \<^verbatim>\<open>finally\<close> of any caller runs).
\<close>

datatype 'a outcome = Returns 'a | Throws error | Blocks

datatype stage = Connecting | Syncing | Uploading | Verifying | Complete | Error

datatype message =
    Literal string
  | UploadingPercent
  | UploadFailed error

text \<open>
  The source computes \<^verbatim>\<open>progress\<close> in IEEE doubles. A snapshot holds the
  expression, not a rounded value: \<open>Exact k\<close> is the literal \<open>k\<close>, and
  \<open>Interpolated i n\<close> is \<^verbatim>\<open>30 + (i / n) * 50\<close> for the loop index \<open>i\<close> and the
  line count \<open>n\<close>. \<open>percentValue rnd\<close> is the number the expression denotes when
  every arithmetic operation is followed by the rounding \<open>rnd\<close>; the identity gives the
  exact value. Rounding to the nearest double is monotone and leaves the integers
  0, 1, 30, 50 and 80 as they are, which is all that \<open>rounding\<close> asks of \<open>rnd\<close>.
\<close>

datatype percent = Exact nat | Interpolated nat nat

fun percentValue :: "(rat \<Rightarrow> rat) \<Rightarrow> percent \<Rightarrow> rat" where
  "percentValue rnd (Exact k) = of_nat k"
| "percentValue rnd (Interpolated i n) = rnd (30 + rnd (rnd (of_nat i / of_nat n) * 50))"

definition rounding :: "(rat \<Rightarrow> rat) \<Rightarrow> bool" where
  "rounding rnd =
     ((\<forall>x y. x \<le> y \<longrightarrow> rnd x \<le> rnd y)
      \<and> rnd 0 = 0 \<and> rnd 1 = 1 \<and> rnd 30 = 30 \<and> rnd 50 = 50 \<and> rnd 80 = 80)"

record UploadProgress =
  stage :: stage
  progress :: percent
  message :: message

text \<open>
  \<^verbatim>\<open>onProgress\<close>, when present, is described by a predicate on the snapshots it has
  been called with so far, the latest one last: true when this call throws.
\<close>

record UploadOptions =
  boardId :: string
  baudRate :: nat
  hexData :: string
  onProgress :: "(UploadProgress list \<Rightarrow> bool) option"

subsection \<open>The port and the transport\<close>

datatype stream_slot = Absent | Locked | Available

text \<open>
  \<open>setSignals = None\<close>: the port has no \<^verbatim>\<open>setSignals\<close>; \<open>Some k\<close>: the first
  \<open>k\<close> calls of it succeed and the next one rejects.
\<close>

record serial_port =
  setSignals :: "nat option"
  readable :: stream_slot
  writable :: stream_slot

text \<open>
  One chunk read takes \<open>dt\<close> milliseconds to resolve. When the script is used up,
  the next read never resolves.
\<close>

datatype read_event = Chunk nat "byte list" | Done | Rejects

text \<open>
  The fields \<^verbatim>\<open>this.reader\<close> and \<^verbatim>\<open>this.writer\<close> (held or null) and the streams
  behind them: \<open>reads\<close> is what the coming calls of \<^verbatim>\<open>reader.read()\<close> deliver, in
  order; \<open>sent\<close> holds the buffers that \<^verbatim>\<open>writer.write\<close> has accepted;
  \<open>write_rejects k\<close> tells whether the write attempted after \<open>k\<close> accepted buffers
  rejects; \<open>cancel_rejects\<close> and \<open>close_rejects\<close> tell whether
  \<^verbatim>\<open>reader.cancel()\<close> and \<^verbatim>\<open>writer.close()\<close> reject; \<open>cancel_calls\<close> and
  \<open>close_calls\<close> count the calls of these two.
\<close>

record transport =
  reader :: bool
  writer :: bool
  reads :: "read_event list"
  sent :: "byte list list"
  write_rejects :: "nat \<Rightarrow> bool"
  cancel_rejects :: bool
  close_rejects :: bool
  cancel_calls :: nat
  close_calls :: nat

text \<open>
  A call of \<^verbatim>\<open>uploadSketch\<close> in progress: the transport, the snapshots the callback
  has been called with, the pauses taken, and whether the values that the streams and
  the callback throw convert to a string (\<^verbatim>\<open>String(error)\<close> returns) or make the
  conversion throw.
\<close>

record run =
  tr :: transport
  progress_log :: "UploadProgress list"
  waits :: "nat list"
  thrown_converts :: bool

subsection \<open>Protocol constants\<close>

definition STK_GET_SYNC :: int where "STK_GET_SYNC = 0x30"
definition STK_LOAD_ADDRESS :: int where "STK_LOAD_ADDRESS = 0x55"
definition STK_PROG_PAGE :: int where "STK_PROG_PAGE = 0x64"
definition STK_LEAVE_PROGMODE :: int where "STK_LEAVE_PROGMODE = 0x51"
definition STK_ENTER_PROGMODE :: int where "STK_ENTER_PROGMODE = 0x50"
definition STK_OK :: int where "STK_OK = 0x10"
definition STK_INSYNC :: int where "STK_INSYNC = 0x14"
definition STK_CRC_EOP :: int where "STK_CRC_EOP = 0x20"

subsection \<open>JavaScript primitives used by the uploader\<close>

text \<open>Element conversion of \<^verbatim>\<open>new Uint8Array(numbers)\<close>: modulo 256, \<^verbatim>\<open>NaN\<close> to 0.\<close>

definition toUint8 :: "jsnum \<Rightarrow> byte" where
  "toUint8 x = (case x of None \<Rightarrow> 0 | Some n \<Rightarrow> word_of_int n)"

text \<open>
  \<^verbatim>\<open>x & 0xFF\<close> and \<^verbatim>\<open>(x >> 8) & 0xFF\<close>: bits 0 to 7 and 8 to 15 of the two's
  complement of the integer, 0 for \<^verbatim>\<open>NaN\<close>.
\<close>

definition lowByte :: "jsnum \<Rightarrow> int" where
  "lowByte x = (case x of None \<Rightarrow> 0 | Some n \<Rightarrow> n mod 256)"

definition highByte :: "jsnum \<Rightarrow> int" where
  "highByte x = (case x of None \<Rightarrow> 0 | Some n \<Rightarrow> (n div 256) mod 256)"

text \<open>\<^verbatim>\<open>xs[i]\<close>: \<^verbatim>\<open>undefined\<close> (\<open>None\<close>) out of range.\<close>

fun elemAt :: "'a list \<Rightarrow> nat \<Rightarrow> 'a option" where
  "elemAt [] i = None"
| "elemAt (x # xs) 0 = Some x"
| "elemAt (x # xs) (Suc i) = elemAt xs i"

text \<open>\<^verbatim>\<open>s.substr(start, len)\<close> for non-negative arguments.\<close>

definition substr :: "string \<Rightarrow> nat \<Rightarrow> nat \<Rightarrow> string" where
  "substr s start len = take len (drop start s)"

text \<open>
  Characters are read as code units below 256. White space and line terminators
  among them: TAB, LF, VT, FF, CR, SP and NBSP.
\<close>

definition isWhiteSpace :: "char \<Rightarrow> bool" where
  "isWhiteSpace c = (let n = (of_char c :: nat) in (9 \<le> n \<and> n \<le> 13) \<or> n = 32 \<or> n = 160)"

definition hexDigit :: "char \<Rightarrow> nat option" where
  "hexDigit c = (let n = (of_char c :: nat) in
     if 48 \<le> n \<and> n \<le> 57 then Some (n - 48)
     else if 65 \<le> n \<and> n \<le> 70 then Some (n - 55)
     else if 97 \<le> n \<and> n \<le> 102 then Some (n - 87)
     else None)"

text \<open>The longest prefix of hexadecimal digits, as their values.\<close>

fun digitPrefix :: "string \<Rightarrow> nat list" where
  "digitPrefix [] = []"
| "digitPrefix (c # cs) = (case hexDigit c of None \<Rightarrow> [] | Some d \<Rightarrow> d # digitPrefix cs)"

definition digitsValue :: "nat list \<Rightarrow> nat" where
  "digitsValue ds = foldl (\<lambda>acc d. acc * 16 + d) 0 ds"

text \<open>
  \<^verbatim>\<open>parseInt(s, 16)\<close>: skip leading white space, take an optional sign, take an
  optional \<^verbatim>\<open>0x\<close> or \<^verbatim>\<open>0X\<close>, read the longest prefix of digits; \<^verbatim>\<open>NaN\<close> when
  that prefix is empty.
\<close>

definition stripSign :: "string \<Rightarrow> bool \<times> string" where
  "stripSign s = (case s of
      c # cs \<Rightarrow> if c = CHR ''-'' then (True, cs) else if c = CHR ''+'' then (False, cs) else (False, s)
    | [] \<Rightarrow> (False, s))"

definition stripPrefix :: "string \<Rightarrow> string" where
  "stripPrefix s = (case s of
      a # b # cs \<Rightarrow> if a = CHR ''0'' \<and> (b = CHR ''x'' \<or> b = CHR ''X'') then cs else s
    | _ \<Rightarrow> s)"

definition parseInt16 :: "string \<Rightarrow> jsnum" where
  "parseInt16 s =
     (let (neg, s1) = stripSign (dropWhile isWhiteSpace s);
          ds = digitPrefix (stripPrefix s1)
      in if ds = [] then None
         else Some (if neg then - int (digitsValue ds) else int (digitsValue ds)))"

text \<open>\<^verbatim>\<open>x > 0\<close> and \<^verbatim>\<open>x === 0x00\<close> on such numbers.\<close>

definition positive :: "jsnum \<Rightarrow> bool" where
  "positive x = (case x of None \<Rightarrow> False | Some n \<Rightarrow> 0 < n)"

text \<open>\<^verbatim>\<open>text.split('\n')\<close>: always at least one piece.\<close>

fun split_lines :: "string \<Rightarrow> string list" where
  "split_lines [] = [[]]"
| "split_lines (c # cs) =
     (if c = CHR 0x0A then [] # split_lines cs
      else (case split_lines cs of [] \<Rightarrow> [[c]] | l # ls \<Rightarrow> (c # l) # ls))"

text \<open>\<^verbatim>\<open>line.trim()\<close> taken as a condition: some character is not white space.\<close>

definition trimTruthy :: "string \<Rightarrow> bool" where
  "trimTruthy line = list_ex (\<lambda>c. \<not> isWhiteSpace c) line"

definition startsWithColon :: "string \<Rightarrow> bool" where
  "startsWithColon line = (case line of [] \<Rightarrow> False | c # _ \<Rightarrow> c = CHR '':'')"

text \<open>\<^verbatim>\<open>hexData.split('\n').filter(line => line.trim() && line.startsWith(':'))\<close>\<close>

definition hexLines :: "string \<Rightarrow> string list" where
  "hexLines text = filter (\<lambda>line. trimTruthy line \<and> startsWithColon line) (split_lines text)"

subsection \<open>Progress, delays\<close>

text \<open>
  \<^verbatim>\<open>options.onProgress?.(snapshot)\<close>. The log holds every snapshot the callback has
  been called with, also the one on which it throws.
\<close>

definition notify :: "UploadOptions \<Rightarrow> UploadProgress \<Rightarrow> run \<Rightarrow> unit outcome \<times> run" where
  "notify options p s =
     (case onProgress options of
        None \<Rightarrow> (Returns (), s)
      | Some cb \<Rightarrow>
          (let h = progress_log s @ [p]
           in (if cb h then Throws CallbackThrew else Returns (), s\<lparr>progress_log := h\<rparr>)))"

text \<open>\<^verbatim>\<open>await this.delay(ms)\<close>, kept as a record of the pauses taken.\<close>

definition delay :: "nat \<Rightarrow> run \<Rightarrow> run" where
  "delay ms s = s\<lparr>waits := waits s @ [ms]\<rparr>"

subsection \<open>Commands and responses\<close>

text \<open>\<^verbatim>\<open>new Uint8Array(command)\<close> is what reaches the stream.\<close>

definition sendCommand :: "jsnum list \<Rightarrow> transport \<Rightarrow> unit outcome \<times> transport" where
  "sendCommand command t =
     (if \<not> writer t then (Throws WriterNotAvailable, t)
      else if write_rejects t (length (sent t)) then (Throws WriteRejected, t)
      else (Returns (), t\<lparr>sent := sent t @ [map toUint8 command]\<rparr>))"

text \<open>The inner \<^verbatim>\<open>for (const byte of data)\<close> loop of \<^verbatim>\<open>readResponse\<close>.\<close>

fun pushBytes :: "nat \<Rightarrow> byte list \<Rightarrow> byte list \<Rightarrow> byte list" where
  "pushBytes expectedLength response [] = response"
| "pushBytes expectedLength response (b # bs) =
     (let r = response @ [b]
      in if length r \<ge> expectedLength then r else pushBytes expectedLength r bs)"

definition finishRead :: "nat \<Rightarrow> byte list \<Rightarrow> byte list outcome" where
  "finishRead expectedLength response =
     (if length response < expectedLength
      then Throws (ResponseTimeout expectedLength (length response))
      else Returns response)"

text \<open>
  The \<^verbatim>\<open>while\<close> loop of \<^verbatim>\<open>readResponse\<close>. \<open>elapsed\<close> is \<^verbatim>\<open>Date.now()\<close> minus its
  value when \<^verbatim>\<open>readResponse\<close> was entered, so \<^verbatim>\<open>Date.now() < timeout\<close> is
  \<open>elapsed < 5000\<close>; time passes only while a read is awaited.
\<close>

fun readLoop :: "nat \<Rightarrow> byte list \<Rightarrow> nat \<Rightarrow> read_event list \<Rightarrow> byte list outcome \<times> read_event list" where
  "readLoop expectedLength response elapsed evs =
     (if length response < expectedLength \<and> elapsed < 5000 then
        (case evs of
           [] \<Rightarrow> (Blocks, [])
         | Chunk dt bs # rest \<Rightarrow>
             readLoop expectedLength (pushBytes expectedLength response bs) (elapsed + dt) rest
         | Done # rest \<Rightarrow> (finishRead expectedLength response, rest)
         | Rejects # rest \<Rightarrow> (Throws ReadRejected, rest))
      else (finishRead expectedLength response, evs))"

definition readResponse :: "nat \<Rightarrow> transport \<Rightarrow> byte list outcome \<times> transport" where
  "readResponse expectedLength t =
     (if \<not> reader t then (Throws ReaderNotAvailable, t)
      else (case readLoop expectedLength [] 0 (reads t) of
              (r, evs) \<Rightarrow> (r, t\<lparr>reads := evs\<rparr>)))"

text \<open>\<^verbatim>\<open>response[0] === STK_INSYNC && response[1] === STK_OK\<close>\<close>

definition inSyncOk :: "byte list \<Rightarrow> bool" where
  "inSyncOk response =
     (elemAt response 0 = Some (word_of_int STK_INSYNC) \<and> elemAt response 1 = Some (word_of_int STK_OK))"

text \<open>One command and response exchange whose other answers throw \<open>e\<close>.\<close>

definition exchange :: "jsnum list \<Rightarrow> error \<Rightarrow> transport \<Rightarrow> unit outcome \<times> transport" where
  "exchange command e t =
     (case sendCommand command t of
        (Returns _, t1) \<Rightarrow>
          (case readResponse 2 t1 of
             (Returns response, t2) \<Rightarrow> (if inSyncOk response then Returns () else Throws e, t2)
           | (Throws e', t2) \<Rightarrow> (Throws e', t2)
           | (Blocks, t2) \<Rightarrow> (Blocks, t2))
      | (Throws e', t1) \<Rightarrow> (Throws e', t1)
      | (Blocks, t1) \<Rightarrow> (Blocks, t1))"

definition loadAddressCommand :: "jsnum \<Rightarrow> jsnum list" where
  "loadAddressCommand address =
     [Some STK_LOAD_ADDRESS, Some (lowByte address), Some (highByte address), Some STK_CRC_EOP]"

definition progPageCommand :: "jsnum list \<Rightarrow> jsnum list" where
  "progPageCommand data =
     (let pageSize = int (length data)
      in [Some STK_PROG_PAGE, Some ((pageSize div 256) mod 256), Some (pageSize mod 256), Some 0x46]
         @ data @ [Some STK_CRC_EOP])"

definition writePage :: "jsnum \<Rightarrow> jsnum list \<Rightarrow> transport \<Rightarrow> unit outcome \<times> transport" where
  "writePage address data t =
     (case exchange (loadAddressCommand address) (SetAddressFailed address) t of
        (Returns _, t1) \<Rightarrow> exchange (progPageCommand data) (WritePageFailed address) t1
      | (Throws e, t1) \<Rightarrow> (Throws e, t1)
      | (Blocks, t1) \<Rightarrow> (Blocks, t1))"

subsection \<open>Sequencing\<close>

text \<open>\<^verbatim>\<open>await a; rest\<close>: the rest runs only when \<open>a\<close> returns.\<close>

definition andThen :: "'a outcome \<times> 's \<Rightarrow> ('a \<Rightarrow> 's \<Rightarrow> 'b outcome \<times> 's) \<Rightarrow> 'b outcome \<times> 's" where
  "andThen m f =
     (case m of
        (Returns x, s) \<Rightarrow> f x s
      | (Throws e, s) \<Rightarrow> (Throws e, s)
      | (Blocks, s) \<Rightarrow> (Blocks, s))"

text \<open>A step on the transport, taken inside a run.\<close>

definition onTransport :: "(transport \<Rightarrow> 'a outcome \<times> transport) \<Rightarrow> run \<Rightarrow> 'a outcome \<times> run" where
  "onTransport f s = (case f (tr s) of (r, t) \<Rightarrow> (r, s\<lparr>tr := t\<rparr>))"

subsection \<open>Connection\<close>

text \<open>
  \<^verbatim>\<open>resetArduino\<close> swallows every error of \<^verbatim>\<open>setSignals\<close>; what remains visible
  are the delays taken before the failing call.
\<close>

definition resetArduino :: "serial_port option \<Rightarrow> run \<Rightarrow> run" where
  "resetArduino port s =
     (case port of
        None \<Rightarrow> s
      | Some p \<Rightarrow>
          (case setSignals p of
             None \<Rightarrow> delay 2000 s
           | Some k \<Rightarrow>
               if k = 0 then s
               else if k = 1 then delay 100 s
               else delay 50 (delay 100 s)))"

text \<open>\<^verbatim>\<open>stream.getReader()\<close> and \<^verbatim>\<open>stream.getWriter()\<close> throw on a locked stream.\<close>

definition acquireReader :: "serial_port \<Rightarrow> transport \<Rightarrow> unit outcome \<times> transport" where
  "acquireReader p t =
     (case readable p of
        Absent \<Rightarrow> (Returns (), t)
      | Locked \<Rightarrow> (Throws StreamLocked, t)
      | Available \<Rightarrow> (Returns (), t\<lparr>reader := True\<rparr>))"

definition acquireWriter :: "serial_port \<Rightarrow> transport \<Rightarrow> unit outcome \<times> transport" where
  "acquireWriter p t =
     (case writable p of
        Absent \<Rightarrow> (Returns (), t)
      | Locked \<Rightarrow> (Throws StreamLocked, t)
      | Available \<Rightarrow> (Returns (), t\<lparr>writer := True\<rparr>))"

definition initializeConnection :: "serial_port option \<Rightarrow> nat \<Rightarrow> run \<Rightarrow> unit outcome \<times> run" where
  "initializeConnection port baud s =
     (case port of
        None \<Rightarrow> (Throws NoPortAvailable, s)
      | Some p \<Rightarrow>
          (let s1 = delay 2000 (resetArduino port s)
           in andThen (onTransport (acquireReader p) s1) (\<lambda>_. onTransport (acquireWriter p))))"

subsection \<open>Sync and programming mode\<close>

definition maxSyncAttempts :: nat where "maxSyncAttempts = 10"

text \<open>The \<^verbatim>\<open>try\<close> block of the sync loop; its result is the condition of the \<^verbatim>\<open>break\<close>.\<close>

definition syncAttempt :: "transport \<Rightarrow> bool outcome \<times> transport" where
  "syncAttempt t =
     (case sendCommand [Some STK_GET_SYNC, Some STK_CRC_EOP] t of
        (Returns _, t1) \<Rightarrow>
          (case readResponse 2 t1 of
             (Returns response, t2) \<Rightarrow> (Returns (inSyncOk response), t2)
           | (Throws e, t2) \<Rightarrow> (Throws e, t2)
           | (Blocks, t2) \<Rightarrow> (Blocks, t2))
      | (Throws e, t1) \<Rightarrow> (Throws e, t1)
      | (Blocks, t1) \<Rightarrow> (Blocks, t1))"

declare readLoop.simps [simp del]

lemma readLoop_stop:
  "\<not> (length response < n \<and> el < 5000) \<Longrightarrow>
   readLoop n response el evs = (finishRead n response, evs)"
  by (subst readLoop.simps) auto

lemma readLoop_Nil:
  "length response < n \<Longrightarrow> el < 5000 \<Longrightarrow> readLoop n response el [] = (Blocks, [])"
  by (subst readLoop.simps) simp

lemma readLoop_Chunk:
  "length response < n \<Longrightarrow> el < 5000 \<Longrightarrow>
   readLoop n response el (Chunk dt bs # rest) =
     readLoop n (pushBytes n response bs) (el + dt) rest"
  by (subst readLoop.simps) simp

lemma readLoop_Done:
  "length response < n \<Longrightarrow> el < 5000 \<Longrightarrow>
   readLoop n response el (Done # rest) = (finishRead n response, rest)"
  by (subst readLoop.simps) simp

lemma readLoop_Rejects:
  "length response < n \<Longrightarrow> el < 5000 \<Longrightarrow>
   readLoop n response el (Rejects # rest) = (Throws ReadRejected, rest)"
  by (subst readLoop.simps) simp

lemma readLoop_reads_le: "length (snd (readLoop n response el evs)) \<le> length evs"
proof (induction evs arbitrary: response el)
  case Nil
  show ?case
  proof (cases "length response < n \<and> el < 5000")
    case True
    then show ?thesis by (simp add: readLoop_Nil)
  next
    case False
    then show ?thesis by (simp add: readLoop_stop)
  qed
next
  case (Cons ev rest)
  show ?case
  proof (cases "length response < n \<and> el < 5000")
    case False
    then show ?thesis by (simp add: readLoop_stop)
  next
    case True
    show ?thesis
    proof (cases ev)
      case (Chunk dt bs)
      have "length (snd (readLoop n (pushBytes n response bs) (el + dt) rest)) \<le> length rest"
        by (rule Cons.IH)
      with True Chunk show ?thesis by (simp add: readLoop_Chunk)
    next
      case Done
      with True show ?thesis by (simp add: readLoop_Done)
    next
      case Rejects
      with True show ?thesis by (simp add: readLoop_Rejects)
    qed
  qed
qed

lemma readLoop_first_read:
  assumes "0 < n"
  shows "length (snd (readLoop n [] 0 evs)) < length evs \<or> fst (readLoop n [] 0 evs) = Blocks"
proof (cases evs)
  case Nil
  with assms show ?thesis by (simp add: readLoop_Nil)
next
  case (Cons ev rest)
  show ?thesis
  proof (cases ev)
    case (Chunk dt bs)
    have "length (snd (readLoop n (pushBytes n [] bs) (0 + dt) rest)) \<le> length rest"
      by (rule readLoop_reads_le)
    with assms Cons Chunk show ?thesis by (simp add: readLoop_Chunk)
  next
    case Done
    with assms Cons show ?thesis by (simp add: readLoop_Done)
  next
    case Rejects
    with assms Cons show ?thesis by (simp add: readLoop_Rejects)
  qed
qed

lemma readResponse_reads_le: "length (reads (snd (readResponse n t))) \<le> length (reads t)"
proof (cases "readLoop n [] 0 (reads t)")
  case (Pair r evs)
  with readLoop_reads_le [of n "[]" 0 "reads t"] show ?thesis
    by (simp add: readResponse_def)
qed

lemma readResponse_Returns_reads:
  assumes "readResponse 2 t = (Returns response, t')"
  shows "length (reads t') < length (reads t)"
proof (cases "readLoop 2 [] 0 (reads t)")
  case (Pair r evs)
  with assms readLoop_first_read [of 2 "reads t"] show ?thesis
    by (auto simp: readResponse_def split: if_splits)
qed

lemma sendCommand_reads: "reads (snd (sendCommand c t)) = reads t"
  by (simp add: sendCommand_def)

lemma syncAttempt_reads_le: "length (reads (snd (syncAttempt t))) \<le> length (reads t)"
proof -
  obtain r t1 where s: "sendCommand [Some STK_GET_SYNC, Some STK_CRC_EOP] t = (r, t1)"
    by (cases "sendCommand [Some STK_GET_SYNC, Some STK_CRC_EOP] t")
  have r1: "reads t1 = reads t"
    using sendCommand_reads [of "[Some STK_GET_SYNC, Some STK_CRC_EOP]" t] s by simp
  have "length (reads (snd (readResponse 2 t1))) \<le> length (reads t1)"
    by (rule readResponse_reads_le)
  with s r1 show ?thesis
    by (auto simp: syncAttempt_def split: outcome.splits prod.splits)
qed

lemma syncAttempt_Returns_reads:
  assumes "syncAttempt t = (Returns b, t')"
  shows "length (reads t') < length (reads t)"
proof -
  obtain r t1 where s: "sendCommand [Some STK_GET_SYNC, Some STK_CRC_EOP] t = (r, t1)"
    by (cases "sendCommand [Some STK_GET_SYNC, Some STK_CRC_EOP] t")
  have r1: "reads t1 = reads t"
    using sendCommand_reads [of "[Some STK_GET_SYNC, Some STK_CRC_EOP]" t] s by simp
  from assms s obtain response where "readResponse 2 t1 = (Returns response, t')"
    by (auto simp: syncAttempt_def split: outcome.splits prod.splits)
  then have "length (reads t') < length (reads t1)"
    by (rule readResponse_Returns_reads)
  with r1 show ?thesis by simp
qed

text \<open>
  The \<^verbatim>\<open>while (syncAttempts < maxSyncAttempts)\<close> loop. An attempt whose response is
  read but is not in-sync/OK leaves the \<^verbatim>\<open>try\<close> block normally: the counter stays and
  the loop goes round without a delay. Only a thrown attempt counts.
\<close>

function syncLoop :: "nat \<Rightarrow> run \<Rightarrow> unit outcome \<times> run" where
  "syncLoop syncAttempts s =
     (if syncAttempts < maxSyncAttempts then
        (case syncAttempt (tr s) of
           (Returns insync, t) \<Rightarrow>
             if insync then (Returns (), s\<lparr>tr := t\<rparr>)
             else syncLoop syncAttempts (s\<lparr>tr := t\<rparr>)
         | (Throws e, t) \<Rightarrow>
             if syncAttempts + 1 \<ge> maxSyncAttempts then (Throws SyncFailed, s\<lparr>tr := t\<rparr>)
             else syncLoop (syncAttempts + 1) (delay 100 (s\<lparr>tr := t\<rparr>))
         | (Blocks, t) \<Rightarrow> (Blocks, s\<lparr>tr := t\<rparr>))
      else (Returns (), s))"
  by pat_completeness auto
termination
proof (relation "measure (\<lambda>(a, s). length (reads (tr s)) + (maxSyncAttempts - a))", goal_cases)
  case 1
  show ?case by simp
next
  case (2 syncAttempts s x y x1)
  then have "syncAttempt (tr s) = (Returns x1, y)" by simp
  then have "length (reads y) < length (reads (tr s))" by (rule syncAttempt_Returns_reads)
  then show ?case by simp
next
  case (3 syncAttempts s x y x2)
  have "length (reads (snd (syncAttempt (tr s)))) \<le> length (reads (tr s))"
    by (rule syncAttempt_reads_le)
  moreover from 3 have "snd (syncAttempt (tr s)) = y" by (metis snd_conv)
  ultimately show ?case using 3 by (simp add: delay_def)
qed

declare syncLoop.simps [simp del]

definition enterProgrammingMode :: "UploadOptions \<Rightarrow> run \<Rightarrow> unit outcome \<times> run" where
  "enterProgrammingMode options s =
     andThen (notify options
        \<lparr>stage = Connecting, progress = Exact 10, message = Literal ''Connecting to bootloader...''\<rparr> s)
       (\<lambda>_ s1. andThen (syncLoop 0 s1)
       (\<lambda>_ s2. andThen (notify options
          \<lparr>stage = Syncing, progress = Exact 20, message = Literal ''Synced with bootloader''\<rparr> s2)
       (\<lambda>_. onTransport
          (exchange [Some STK_ENTER_PROGMODE, Some STK_CRC_EOP] EnterProgModeFailed))))"

subsection \<open>Uploading the hex data\<close>

text \<open>The fields of a line, at their fixed offsets.\<close>

definition dataLengthOf :: "string \<Rightarrow> jsnum" where
  "dataLengthOf line = parseInt16 (substr line 1 2)"

definition recordTypeOf :: "string \<Rightarrow> jsnum" where
  "recordTypeOf line = parseInt16 (substr line 7 2)"

definition recordAddressOf :: "string \<Rightarrow> jsnum" where
  "recordAddressOf line = parseInt16 (substr line 3 4)"

text \<open>The \<^verbatim>\<open>for (let j = 0; j < dataLength; j++)\<close> loop that collects the payload.\<close>

definition dataOf :: "string \<Rightarrow> jsnum list" where
  "dataOf line =
     (case dataLengthOf line of
        None \<Rightarrow> []
      | Some n \<Rightarrow> map (\<lambda>j. parseInt16 (substr line (9 + j * 2) 2)) [0..<nat n])"

text \<open>\<^verbatim>\<open>recordType === 0x00 && dataLength > 0\<close>\<close>

definition isDataRecord :: "string \<Rightarrow> bool" where
  "isDataRecord line = (recordTypeOf line = Some 0 \<and> positive (dataLengthOf line))"

text \<open>
  The body of the \<^verbatim>\<open>for\<close> loop over the lines, \<open>i\<close> being the index of the first
  of the remaining lines and \<open>n\<close> the number of all lines.
\<close>

fun uploadLoop :: "UploadOptions \<Rightarrow> nat \<Rightarrow> nat \<Rightarrow> string list \<Rightarrow> run \<Rightarrow> unit outcome \<times> run" where
  "uploadLoop options n i [] s = (Returns (), s)"
| "uploadLoop options n i (line # rest) s =
     (case notify options
        \<lparr>stage = Uploading, progress = Interpolated i n, message = UploadingPercent\<rparr> s of
        (Returns _, s1) \<Rightarrow>
          if length line < 11 then uploadLoop options n (i + 1) rest s1
          else if isDataRecord line then
            (case onTransport (writePage (recordAddressOf line) (dataOf line)) s1 of
               (Returns _, s2) \<Rightarrow> uploadLoop options n (i + 1) rest (delay 10 s2)
             | (Throws e, s2) \<Rightarrow> (Throws e, s2)
             | (Blocks, s2) \<Rightarrow> (Blocks, s2))
          else uploadLoop options n (i + 1) rest (delay 10 s1)
      | (Throws e, s1) \<Rightarrow> (Throws e, s1)
      | (Blocks, s1) \<Rightarrow> (Blocks, s1))"

definition uploadHexData :: "string \<Rightarrow> UploadOptions \<Rightarrow> run \<Rightarrow> unit outcome \<times> run" where
  "uploadHexData text options s =
     andThen (notify options
        \<lparr>stage = Uploading, progress = Exact 30, message = Literal ''Uploading sketch...''\<rparr> s)
       (\<lambda>_. uploadLoop options (length (hexLines text)) 0 (hexLines text))"

subsection \<open>Verification, leaving, cleanup\<close>

definition verifyUpload :: "string \<Rightarrow> UploadOptions \<Rightarrow> run \<Rightarrow> unit outcome \<times> run" where
  "verifyUpload text options s =
     andThen (notify options
        \<lparr>stage = Verifying, progress = Exact 85, message = Literal ''Verifying upload...''\<rparr> s)
       (\<lambda>_ s1. notify options
          \<lparr>stage = Verifying, progress = Exact 95, message = Literal ''Verification complete''\<rparr>
          (delay 500 s1))"

definition leaveProgrammingMode :: "UploadOptions \<Rightarrow> run \<Rightarrow> unit outcome \<times> run" where
  "leaveProgrammingMode options s =
     onTransport (exchange [Some STK_LEAVE_PROGMODE, Some STK_CRC_EOP] LeaveProgModeFailed) s"

text \<open>
  \<^verbatim>\<open>cleanup\<close> has one \<^verbatim>\<open>try\<close> block around both releases: when
  \<^verbatim>\<open>reader.cancel()\<close> rejects, control goes to the \<^verbatim>\<open>catch\<close>, which only logs.
\<close>

definition cancelReader :: "transport \<Rightarrow> unit outcome \<times> transport" where
  "cancelReader t =
     (if reader t then
        (if cancel_rejects t then (Throws ReadRejected, t\<lparr>cancel_calls := cancel_calls t + 1\<rparr>)
         else (Returns (), t\<lparr>cancel_calls := cancel_calls t + 1, reader := False\<rparr>))
      else (Returns (), t))"

definition closeWriter :: "transport \<Rightarrow> unit outcome \<times> transport" where
  "closeWriter t =
     (if writer t then
        (if close_rejects t then (Throws WriteRejected, t\<lparr>close_calls := close_calls t + 1\<rparr>)
         else (Returns (), t\<lparr>close_calls := close_calls t + 1, writer := False\<rparr>))
      else (Returns (), t))"

definition cleanup :: "transport \<Rightarrow> transport" where
  "cleanup t = snd (andThen (cancelReader t) (\<lambda>_. closeWriter))"

subsection \<open>The upload\<close>

text \<open>The \<^verbatim>\<open>try\<close> block of \<^verbatim>\<open>uploadSketch\<close>.\<close>

definition uploadSteps :: "serial_port \<Rightarrow> UploadOptions \<Rightarrow> run \<Rightarrow> unit outcome \<times> run" where
  "uploadSteps port options s =
     andThen (initializeConnection (Some port) (baudRate options) s)
       (\<lambda>_ s1. andThen (enterProgrammingMode options s1)
       (\<lambda>_ s2. andThen (uploadHexData (hexData options) options s2)
       (\<lambda>_ s3. andThen (verifyUpload (hexData options) options s3)
       (\<lambda>_ s4. andThen (leaveProgrammingMode options s4)
       (\<lambda>_. notify options
          \<lparr>stage = Complete, progress = Exact 100, message = Literal ''Upload completed successfully!''\<rparr>)))))"

text \<open>
  The values that the \<^verbatim>\<open>catch\<close> of \<^verbatim>\<open>uploadSketch\<close> can receive from code outside
  the class: what a stream threw or rejected with, and what the callback threw. The
  other errors are \<^verbatim>\<open>Error\<close> objects that the class creates itself.
\<close>

definition foreignValue :: "error \<Rightarrow> bool" where
  "foreignValue e = (e = StreamLocked \<or> e = ReadRejected \<or> e = WriteRejected \<or> e = CallbackThrew)"

text \<open>
  The template literal \<^verbatim>\<open>`Upload failed: ${error}`\<close> converts the caught value to a
  string. An \<^verbatim>\<open>Error\<close> object of the class converts; a foreign value converts or
  makes the conversion throw a \<^verbatim>\<open>TypeError\<close> (a symbol, an object without
  \<^verbatim>\<open>toString\<close>), as \<open>thrown_converts\<close> tells.
\<close>

definition errorText :: "error \<Rightarrow> run \<Rightarrow> message outcome" where
  "errorText e s =
     (if foreignValue e \<and> \<not> thrown_converts s then Throws NotConvertible
      else Returns (UploadFailed e))"

text \<open>
  \<^verbatim>\<open>try { ... return true } catch { onProgress?.(error); return false } finally { cleanup }\<close>.
  The optional call of the \<^verbatim>\<open>catch\<close> evaluates its argument, and with it the
  template literal, only when a callback is present. A throw of that conversion or of
  the callback inside the \<^verbatim>\<open>catch\<close> leaves \<^verbatim>\<open>uploadSketch\<close> after the
  \<^verbatim>\<open>finally\<close>; a step that never settles leaves the whole call pending.
\<close>

definition uploadSketch :: "serial_port \<Rightarrow> UploadOptions \<Rightarrow> run \<Rightarrow> bool outcome \<times> run" where
  "uploadSketch port options s =
     (case uploadSteps port options s of
        (Returns _, s1) \<Rightarrow> (Returns True, s1\<lparr>tr := cleanup (tr s1)\<rparr>)
      | (Throws e, s1) \<Rightarrow>
          (case onProgress options of
             None \<Rightarrow> (Returns False, s1\<lparr>tr := cleanup (tr s1)\<rparr>)
           | Some _ \<Rightarrow>
               (case errorText e s1 of
                  Returns m \<Rightarrow>
                    (case notify options \<lparr>stage = Error, progress = Exact 0, message = m\<rparr> s1 of
                       (Returns _, s2) \<Rightarrow> (Returns False, s2\<lparr>tr := cleanup (tr s2)\<rparr>)
                     | (Throws e', s2) \<Rightarrow> (Throws e', s2\<lparr>tr := cleanup (tr s2)\<rparr>)
                     | (Blocks, s2) \<Rightarrow> (Blocks, s2))
                | Throws e' \<Rightarrow> (Throws e', s1\<lparr>tr := cleanup (tr s1)\<rparr>)
                | Blocks \<Rightarrow> (Blocks, s1)))
      | (Blocks, s1) \<Rightarrow> (Blocks, s1))"

subsection \<open>What a reader has delivered\<close>

text \<open>
  The bytes of the chunks in a run of read events, and the time their reads took.
\<close>

fun chunkBytes :: "read_event \<Rightarrow> byte list" where
  "chunkBytes (Chunk dt bs) = bs"
| "chunkBytes Done = []"
| "chunkBytes Rejects = []"

fun chunkTime :: "read_event \<Rightarrow> nat" where
  "chunkTime (Chunk dt bs) = dt"
| "chunkTime Done = 0"
| "chunkTime Rejects = 0"

definition received :: "read_event list \<Rightarrow> byte list" where
  "received evs = concat (map chunkBytes evs)"

definition waited :: "read_event list \<Rightarrow> nat" where
  "waited evs = sum_list (map chunkTime evs)"

text \<open>
  How a \<^verbatim>\<open>readResponse\<close> that consumed the first \<open>k\<close> events of \<open>evs\<close> can end,
  \<open>got\<close> being the bytes held then and \<open>el\<close> the time elapsed at its start.
\<close>

definition readVerdict :: "nat \<Rightarrow> byte list \<Rightarrow> nat \<Rightarrow> read_event list \<Rightarrow> nat \<Rightarrow> byte list outcome \<Rightarrow> bool" where
  "readVerdict n got el evs k r =
     (case r of
        Returns x \<Rightarrow> x = take n got \<and> length x = n
      | Throws e \<Rightarrow>
          (e = ReadRejected \<and> 0 < k \<and> evs ! (k - 1) = Rejects)
          \<or> (e = ResponseTimeout n (length got) \<and> length got < n
              \<and> ((0 < k \<and> evs ! (k - 1) = Done) \<or> 5000 \<le> el + waited (take k evs)))
      | Blocks \<Rightarrow> k = length evs \<and> length got < n \<and> el + waited evs < 5000)"

section \<open>Evaluation\<close>

text \<open>The equations that run the model on a concrete transport.\<close>

lemmas run_defs =
  andThen_def onTransport_def notify_def delay_def sendCommand_def readResponse_def
  exchange_def writePage_def syncAttempt_def syncLoop.simps maxSyncAttempts_def inSyncOk_def
  finishRead_def readLoop.simps loadAddressCommand_def progPageCommand_def toUint8_def
  lowByte_def highByte_def STK_GET_SYNC_def STK_LOAD_ADDRESS_def STK_PROG_PAGE_def
  STK_LEAVE_PROGMODE_def STK_ENTER_PROGMODE_def STK_OK_def STK_INSYNC_def STK_CRC_EOP_def
  enterProgrammingMode_def uploadHexData_def verifyUpload_def leaveProgrammingMode_def
  cancelReader_def closeWriter_def cleanup_def uploadSteps_def uploadSketch_def
  errorText_def foreignValue_def
  initializeConnection_def resetArduino_def acquireReader_def acquireWriter_def

text \<open>A port with both streams and working control lines.\<close>

definition goodPort :: serial_port where
  "goodPort = \<lparr>setSignals = Some 3, readable = Available, writable = Available\<rparr>"

text \<open>A transport on which nothing is held yet and nothing rejects.\<close>

definition freshTransport :: "read_event list \<Rightarrow> transport" where
  "freshTransport evs =
     \<lparr>reader = False, writer = False, reads = evs, sent = [], write_rejects = (\<lambda>_. False),
      cancel_rejects = False, close_rejects = False, cancel_calls = 0, close_calls = 0\<rparr>"

text \<open>A run at its start; what is thrown in it converts to a string.\<close>

definition freshRun :: "transport \<Rightarrow> run" where
  "freshRun t = \<lparr>tr = t, progress_log = [], waits = [], thrown_converts = True\<rparr>"

text \<open>The device's answers: in-sync/OK, and in-sync/FAILED.\<close>

definition okReply :: read_event where
  "okReply = Chunk 0 [0x14, 0x10]"

definition failedReply :: read_event where
  "failedReply = Chunk 0 [0x14, 0x11]"

definition plainOptions :: "string \<Rightarrow> UploadOptions" where
  "plainOptions text =
     \<lparr>boardId = ''uno'', baudRate = 115200, hexData = text, onProgress = Some (\<lambda>_. False)\<rparr>"

section \<open>The sync phase\<close>

text \<open>
  C2. The claim bounds the sync phase by 10 attempts, with a 100 ms pause between
  attempts. The loop counts an attempt only when it throws. Here the device answers
  in-sync/FAILED eleven times and in-sync/OK the twelfth time: the loop sends twelve
  sync commands, takes no pause and then reports success.
\<close>

theorem sync_sends_twelfth_command:
  "syncLoop 0 (freshRun ((freshTransport
      [failedReply, failedReply, failedReply, failedReply, failedReply, failedReply,
       failedReply, failedReply, failedReply, failedReply, failedReply, okReply])
      \<lparr>reader := True, writer := True\<rparr>))
   = (Returns (),
      freshRun ((freshTransport [])
        \<lparr>reader := True, writer := True,
         sent := [[0x30, 0x20], [0x30, 0x20], [0x30, 0x20], [0x30, 0x20], [0x30, 0x20],
                  [0x30, 0x20], [0x30, 0x20], [0x30, 0x20], [0x30, 0x20], [0x30, 0x20],
                  [0x30, 0x20], [0x30, 0x20]]\<rparr>))"
  by (simp add: run_defs freshRun_def freshTransport_def failedReply_def okReply_def)

text \<open>
  When every attempt throws, the bound holds: ten rejected reads give ten sync
  commands, nine pauses of 100 ms and the sync failure.
\<close>

lemma sync_fails_after_ten_throws:
  "syncLoop 0 (freshRun ((freshTransport
      [Rejects, Rejects, Rejects, Rejects, Rejects, Rejects, Rejects, Rejects, Rejects, Rejects])
      \<lparr>reader := True, writer := True\<rparr>))
   = (Throws SyncFailed,
      \<lparr>tr = (freshTransport [])
        \<lparr>reader := True, writer := True,
         sent := [[0x30, 0x20], [0x30, 0x20], [0x30, 0x20], [0x30, 0x20], [0x30, 0x20],
                  [0x30, 0x20], [0x30, 0x20], [0x30, 0x20], [0x30, 0x20], [0x30, 0x20]]\<rparr>,
       progress_log = [],
       waits = [100, 100, 100, 100, 100, 100, 100, 100, 100],
       thrown_converts = True\<rparr>)"
  by (simp add: run_defs freshRun_def freshTransport_def)

section \<open>Reading a response\<close>

lemma pushBytes_take: "length response < n \<Longrightarrow> pushBytes n response bs = take n (response @ bs)"
proof (induction bs arbitrary: response)
  case Nil
  then show ?case by simp
next
  case (Cons b bs)
  show ?case
  proof (cases "n \<le> length (response @ [b])")
    case True
    with Cons.prems have "n = Suc (length response)" by simp
    then show ?thesis by (simp add: Let_def)
  next
    case False
    then have "pushBytes n (response @ [b]) bs = take n ((response @ [b]) @ bs)"
      by (intro Cons.IH) simp
    with False show ?thesis by (simp add: Let_def)
  qed
qed

lemma take_take_append: "take n (take n a @ b) = take n (a @ b)"
  by (cases "n \<le> length a") (simp_all add: min_def)

lemma readVerdict_step:
  assumes "readVerdict n g' (el + dt) rest k r" "take n g' = take n g" "length g' < n \<Longrightarrow> g' = g"
  shows "readVerdict n g el (Chunk dt bs # rest) (Suc k) r"
proof (cases r)
  case (Returns x)
  note v = assms(1) [unfolded Returns readVerdict_def outcome.case]
  with assms(2) have "x = take n g \<and> length x = n" by metis
  then show ?thesis
    unfolding Returns readVerdict_def outcome.case by blast
next
  case (Throws e)
  with assms show ?thesis
    by (auto simp: readVerdict_def waited_def nth_Cons split: nat.splits)
next
  case Blocks
  with assms show ?thesis by (auto simp: readVerdict_def waited_def)
qed

lemma readLoop_outcome:
  "length response \<le> n \<Longrightarrow>
   \<exists>k \<le> length evs. snd (readLoop n response el evs) = drop k evs
       \<and> readVerdict n (response @ received (take k evs)) el evs k (fst (readLoop n response el evs))"
proof (induction evs arbitrary: response el)
  case Nil
  show ?case
  proof (cases "length response < n \<and> el < 5000")
    case True
    then show ?thesis by (simp add: readLoop_Nil readVerdict_def received_def waited_def)
  next
    case False
    with Nil show ?thesis
      by (auto simp: readLoop_stop readVerdict_def received_def waited_def finishRead_def)
  qed
next
  case (Cons ev rest)
  show ?case
  proof (cases "length response < n \<and> el < 5000")
    case False
    with Cons.prems have "readVerdict n (response @ received (take 0 (ev # rest))) el (ev # rest) 0 (finishRead n response)"
      by (auto simp: readVerdict_def received_def waited_def finishRead_def)
    with False show ?thesis
      by (intro exI [of _ 0]) (simp add: readLoop_stop)
  next
    case True
    show ?thesis
    proof (cases ev)
      case Done
      from True have "readVerdict n (response @ received (take 1 (Done # rest))) el (Done # rest) 1 (finishRead n response)"
        by (auto simp: readVerdict_def received_def waited_def finishRead_def)
      with True Done show ?thesis
        by (intro exI [of _ 1]) (simp add: readLoop_Done)
    next
      case Rejects
      have "readVerdict n (response @ received (take 1 (Rejects # rest))) el (Rejects # rest) 1 (Throws ReadRejected)"
        by (simp add: readVerdict_def)
      with True Rejects show ?thesis
        by (intro exI [of _ 1]) (simp add: readLoop_Rejects)
    next
      case (Chunk dt bs)
      define r' where "r' = pushBytes n response bs"
      from True have r': "r' = take n (response @ bs)" by (simp add: r'_def pushBytes_take)
      then have "length r' \<le> n" by simp
      from Cons.IH [OF this, of "el + dt"] obtain k where k: "k \<le> length rest"
        "snd (readLoop n r' (el + dt) rest) = drop k rest"
        "readVerdict n (r' @ received (take k rest)) (el + dt) rest k (fst (readLoop n r' (el + dt) rest))"
        by blast
      have eq: "readLoop n response el (ev # rest) = readLoop n r' (el + dt) rest"
        using True Chunk by (simp add: readLoop_Chunk r'_def)
      have rc: "received (ev # take k rest) = bs @ received (take k rest)"
        by (simp add: received_def Chunk)
      have A: "take n (r' @ received (take k rest)) = take n (response @ received (ev # take k rest))"
        unfolding r' rc using take_take_append [of n "response @ bs" "received (take k rest)"] by simp
      have B: "r' @ received (take k rest) = response @ received (ev # take k rest)"
        if "length (r' @ received (take k rest)) < n"
      proof -
        from that have "length r' < n" by simp
        with r' have "r' = response @ bs" by (cases "n \<le> length (response @ bs)") simp_all
        then show ?thesis by (simp add: rc)
      qed
      have "readVerdict n (response @ received (ev # take k rest)) el (Chunk dt bs # rest) (Suc k)
              (fst (readLoop n r' (el + dt) rest))"
        using k(3) A B by (rule readVerdict_step)
      with k eq Chunk show ?thesis
        by (intro exI [of _ "Suc k"]) simp
    qed
  qed
qed

text \<open>
  What a response read does. It consumes a prefix of what the reader delivers and ends
  in one of these ways: it returns exactly the expected number of bytes, the first ones
  received; it throws \<^verbatim>\<open>Reader not available\<close> when no reader is held; it passes on
  the rejection of a read; it throws the timeout error, which carries the number of
  bytes received (fewer than expected), after the stream has ended or after a read
  has resolved with 5000 ms or more gone. In the last case of the statement the script
  is used up, with fewer bytes than expected and in less than 5000 ms: the read that
  follows never resolves, and neither does the response read.
\<close>

lemma readResponse_outcomes:
  "\<exists>k \<le> length (reads t).
     reads (snd (readResponse n t)) = drop k (reads t) \<and>
     (case fst (readResponse n t) of
        Returns response \<Rightarrow>
          reader t \<and> length response = n \<and> response = take n (received (take k (reads t)))
      | Throws e \<Rightarrow>
          (e = ReaderNotAvailable \<and> \<not> reader t \<and> k = 0)
          \<or> (e = ReadRejected \<and> reader t \<and> 0 < k \<and> reads t ! (k - 1) = Rejects)
          \<or> (e = ResponseTimeout n (length (received (take k (reads t))))
              \<and> reader t \<and> length (received (take k (reads t))) < n
              \<and> ((0 < k \<and> reads t ! (k - 1) = Done) \<or> 5000 \<le> waited (take k (reads t))))
      | Blocks \<Rightarrow>
          reader t \<and> k = length (reads t) \<and> length (received (reads t)) < n
          \<and> waited (reads t) < 5000)"
proof (cases "reader t")
  case False
  then show ?thesis by (intro exI [of _ 0]) (simp add: readResponse_def)
next
  case True
  obtain k where k: "k \<le> length (reads t)"
    "snd (readLoop n [] 0 (reads t)) = drop k (reads t)"
    "readVerdict n ([] @ received (take k (reads t))) 0 (reads t) k (fst (readLoop n [] 0 (reads t)))"
    using readLoop_outcome [of "[]" n "reads t" 0] by auto
  obtain r evs where re: "readLoop n [] 0 (reads t) = (r, evs)"
    by (cases "readLoop n [] 0 (reads t)")
  with True k show ?thesis
    by (intro exI [of _ k]) (auto simp: readResponse_def readVerdict_def split: outcome.splits)
qed


text \<open>
  C7. The claim has every response read end within the 5 seconds, with the two bytes
  or with the timeout error. The source sets the deadline (\<^verbatim>\<open>// 5 second timeout\<close>)
  and tests it only in the loop condition, between two reads; a pending
  \<^verbatim>\<open>await this.reader.read()\<close> is not bounded by it. Here a reader is held and the
  device stays silent: the stream delivers nothing, neither ends nor fails. The
  response read never settles, no timeout error is raised, and the upload that waits
  for it stays pending with it. And when the first chunk, of one byte, arrives after
  6000 ms, the timeout error (expected 2, got 1) is raised then, a second late.
\<close>

theorem readResponse_misses_deadline:
  "fst (readResponse 2 ((freshTransport [])\<lparr>reader := True\<rparr>)) = Blocks
   \<and> fst (uploadSketch goodPort (plainOptions []) (freshRun (freshTransport []))) = Blocks
   \<and> readResponse 2 ((freshTransport [Chunk 6000 [0x14], okReply])\<lparr>reader := True\<rparr>)
       = (Throws (ResponseTimeout 2 1), (freshTransport [okReply])\<lparr>reader := True\<rparr>)
   \<and> waited [Chunk 6000 [0x14]] = 6000"
  by (simp add: run_defs freshRun_def freshTransport_def goodPort_def plainOptions_def
      okReply_def waited_def)

section \<open>The page write\<close>

text \<open>
  The two frames of a page write as the specification words them: the load-address
  opcode, the low byte, the high byte and the terminator; the program-page opcode, the
  length in two bytes with the high one first, the memory type \<open>F\<close>, the payload
  and the terminator.
\<close>

definition loadAddressBytes :: "jsnum \<Rightarrow> byte list" where
  "loadAddressBytes address =
     [0x55, word_of_int (lowByte address), word_of_int (highByte address), 0x20]"

definition progPageBytes :: "jsnum list \<Rightarrow> byte list" where
  "progPageBytes data =
     [0x64, of_nat (length data div 256), of_nat (length data), 0x46]
     @ map toUint8 data @ [0x20]"

lemma byte_mod: "(word_of_int (x mod 256) :: 8 word) = word_of_int x"
  by (simp add: word_of_int_eq_iff take_bit_eq_mod)

lemma byte_div: "(word_of_int (int n div 256) :: 8 word) = of_nat (n div 256)"
proof -
  have "int n div 256 = int (n div 256)" by simp
  then show ?thesis by (simp only: of_int_of_nat_eq)
qed

lemma loadAddressCommand_bytes: "map toUint8 (loadAddressCommand a) = loadAddressBytes a"
  by (simp add: loadAddressCommand_def loadAddressBytes_def toUint8_def
      STK_LOAD_ADDRESS_def STK_CRC_EOP_def)

lemma progPageCommand_bytes: "map toUint8 (progPageCommand d) = progPageBytes d"
  by (simp add: progPageCommand_def progPageBytes_def toUint8_def STK_PROG_PAGE_def
      STK_CRC_EOP_def Let_def byte_mod byte_div)

lemma loadAddressBytes_value:
  assumes "0 \<le> a" "a < 65536"
  shows "uint (loadAddressBytes (Some a) ! 1) + 256 * uint (loadAddressBytes (Some a) ! 2) = a"
  using assms
  by (simp add: loadAddressBytes_def lowByte_def highByte_def uint_word_of_int take_bit_eq_mod)

lemma progPageBytes_length:
  assumes "length d < 65536"
  shows "256 * unat (progPageBytes d ! 1) + unat (progPageBytes d ! 2) = length d"
proof -
  have "length d div 256 < 256" using assms by simp
  then show ?thesis
    by (simp add: progPageBytes_def unat_of_nat)
qed

lemma readResponse_frame:
  "snd (readResponse n t) = t\<lparr>reads := reads (snd (readResponse n t))\<rparr>"
  by (cases "readLoop n [] 0 (reads t)") (simp add: readResponse_def)

lemma readResponse_throws:
  assumes "fst (readResponse n t) = Throws e"
  shows "e = ReaderNotAvailable \<or> e = ReadRejected \<or> (\<exists>k. e = ResponseTimeout n k)"
proof (cases "reader t")
  case False
  with assms show ?thesis by (simp add: readResponse_def)
next
  case True
  obtain r evs where l: "readLoop n [] 0 (reads t) = (r, evs)"
    by (cases "readLoop n [] 0 (reads t)")
  with assms True have "r = Throws e" by (simp add: readResponse_def)
  with readLoop_outcome [of "[]" n "reads t" 0] l show ?thesis
    by (auto simp: readVerdict_def)
qed

definition readFailure :: "error \<Rightarrow> bool" where
  "readFailure e = (case e of ReaderNotAvailable \<Rightarrow> True | ReadRejected \<Rightarrow> True
     | ResponseTimeout n k \<Rightarrow> True | _ \<Rightarrow> False)"

lemma readResponse_readFailure: "fst (readResponse n t) = Throws e \<Longrightarrow> readFailure e"
  using readResponse_throws [of n t e] by (auto simp: readFailure_def)

lemma exchange_cases:
  assumes "exchange c e t = (r, t')"
  shows "(t' = t \<and> (r = Throws WriterNotAvailable \<or> r = Throws WriteRejected))
       \<or> (sent t' = sent t @ [map toUint8 c]
           \<and> (r = Returns () \<or> r = Throws e \<or> r = Blocks \<or> (\<exists>e'. r = Throws e' \<and> readFailure e')))"
proof (cases "writer t \<and> \<not> write_rejects t (length (sent t))")
  case False
  with assms show ?thesis by (auto simp: exchange_def sendCommand_def split: if_splits)
next
  case True
  let ?t1 = "t\<lparr>sent := sent t @ [map toUint8 c]\<rparr>"
  obtain r2 t2 where rr: "readResponse 2 ?t1 = (r2, t2)" by (cases "readResponse 2 ?t1")
  from readResponse_frame [of 2 ?t1] rr have t2: "t2 = ?t1\<lparr>reads := reads t2\<rparr>" by simp
  from readResponse_readFailure [of 2 ?t1] rr have f: "r2 = Throws e' \<Longrightarrow> readFailure e'" for e'
    by simp
  from assms True rr have "t' = t2"
    by (auto simp: exchange_def sendCommand_def split: outcome.splits)
  moreover from assms True rr f
  have "r = Returns () \<or> r = Throws e \<or> r = Blocks \<or> (\<exists>e'. r = Throws e' \<and> readFailure e')"
    by (auto simp: exchange_def sendCommand_def split: outcome.splits if_splits)
  moreover from t2 have "sent t2 = sent t @ [map toUint8 c]"
    by (metis transport.select_convs(4) transport.surjective transport.update_convs(3,4))
  ultimately show ?thesis by simp
qed

lemma writePage_sent:
  assumes "writePage address data t = (r, t')"
  shows "(sent t' = sent t \<and> (r = Throws WriterNotAvailable \<or> r = Throws WriteRejected))
       \<or> (sent t' = sent t @ [loadAddressBytes address]
           \<and> r \<noteq> Returns () \<and> r \<noteq> Throws (WritePageFailed address))
       \<or> (sent t' = sent t @ [loadAddressBytes address, progPageBytes data]
           \<and> r \<noteq> Throws (SetAddressFailed address)
           \<and> r \<noteq> Throws WriterNotAvailable \<and> r \<noteq> Throws WriteRejected)"
proof -
  obtain r1 t1 where e1: "exchange (loadAddressCommand address) (SetAddressFailed address) t = (r1, t1)"
    by (cases "exchange (loadAddressCommand address) (SetAddressFailed address) t")
  note c1 = exchange_cases [OF e1, unfolded loadAddressCommand_bytes]
  show ?thesis
  proof (cases "r1 = Returns ()")
    case False
    with assms e1 have "r = r1" "t' = t1"
      by (auto simp: writePage_def split: outcome.splits)
    with c1 False show ?thesis by (auto simp: readFailure_def)
  next
    case True
    with assms e1 have e2: "exchange (progPageCommand data) (WritePageFailed address) t1 = (r, t')"
      by (simp add: writePage_def)
    note c2 = exchange_cases [OF e2, unfolded progPageCommand_bytes]
    from c1 True have s1: "sent t1 = sent t @ [loadAddressBytes address]" by auto
    from c2 s1 show ?thesis by (auto simp: readFailure_def)
  qed
qed


lemma notify_tr: "tr (snd (notify options p s)) = tr s"
  by (simp add: notify_def Let_def split: option.splits)

lemma cleanup_sent: "sent (cleanup t) = sent t"
  by (simp add: cleanup_def andThen_def cancelReader_def closeWriter_def)

lemma uploadSketch_after_throw:
  assumes "uploadSteps port options s = (Throws e, s1)"
  shows "fst (uploadSketch port options s) \<noteq> Returns True
       \<and> sent (tr (snd (uploadSketch port options s))) = sent (tr s1)"
proof (cases "onProgress options")
  case None
  with assms show ?thesis by (simp add: uploadSketch_def cleanup_sent)
next
  case (Some cb)
  show ?thesis
  proof (cases "errorText e s1")
    case (Returns m)
    let ?p = "\<lparr>stage = Error, progress = Exact 0, message = m\<rparr>"
    obtain r2 s2 where n: "notify options ?p s1 = (r2, s2)" by (cases "notify options ?p s1")
    with notify_tr [of options ?p s1] have "tr s2 = tr s1" by simp
    with assms n Some Returns show ?thesis
      by (cases r2) (simp_all add: uploadSketch_def cleanup_sent)
  next
    case (Throws e')
    with assms Some show ?thesis by (simp add: uploadSketch_def cleanup_sent)
  next
    case Blocks
    then show ?thesis by (simp add: errorText_def split: if_splits)
  qed
qed

lemma uploadSteps_hex_throw:
  assumes "initializeConnection (Some port) (baudRate options) s = (Returns (), s1)"
    and "enterProgrammingMode options s1 = (Returns (), s2)"
    and "uploadHexData (hexData options) options s2 = (Throws e, s3)"
  shows "uploadSteps port options s = (Throws e, s3)"
  using assms by (simp add: uploadSteps_def andThen_def)

text \<open>
  C4. A call of \<^verbatim>\<open>writePage\<close> adds to what has been sent nothing (the first write
  failed), the load-address frame alone, or the load-address frame followed at once by
  the program-page frame; it returns normally only in the last case. The two address
  bytes recompose the address and the two length bytes the payload length. A 2-byte
  answer other than in-sync/OK to the first frame throws before the second frame is
  written; such an answer to the second frame throws too. A throw of \<^verbatim>\<open>writePage\<close>
  ends the loop over the lines on the spot, and a throw of \<^verbatim>\<open>uploadHexData\<close> makes
  \<^verbatim>\<open>uploadSketch\<close> end without success and without sending anything further.
\<close>

theorem writePage_protocol:
  "(writePage address data t = (r, t') \<longrightarrow>
      (sent t' = sent t \<and> (r = Throws WriterNotAvailable \<or> r = Throws WriteRejected))
      \<or> (sent t' = sent t @ [loadAddressBytes address]
          \<and> r \<noteq> Returns () \<and> r \<noteq> Throws (WritePageFailed address))
      \<or> (sent t' = sent t @ [loadAddressBytes address, progPageBytes data]
          \<and> r \<noteq> Throws (SetAddressFailed address)
          \<and> r \<noteq> Throws WriterNotAvailable \<and> r \<noteq> Throws WriteRejected))
   \<and> (0 \<le> a \<and> a < 65536 \<longrightarrow>
        uint (loadAddressBytes (Some a) ! 1) + 256 * uint (loadAddressBytes (Some a) ! 2) = a)
   \<and> (length data < 65536 \<longrightarrow>
        256 * unat (progPageBytes data ! 1) + unat (progPageBytes data ! 2) = length data)
   \<and> (writer t \<and> \<not> write_rejects t (length (sent t))
        \<and> readResponse 2 (t\<lparr>sent := sent t @ [loadAddressBytes address]\<rparr>) = (Returns response, t2)
        \<and> \<not> inSyncOk response \<longrightarrow>
        writePage address data t = (Throws (SetAddressFailed address), t2))
   \<and> (exchange (loadAddressCommand address) (SetAddressFailed address) t = (Returns (), t1)
        \<and> \<not> write_rejects t1 (length (sent t1))
        \<and> readResponse 2 (t1\<lparr>sent := sent t1 @ [progPageBytes data]\<rparr>) = (Returns response, t2)
        \<and> \<not> inSyncOk response \<longrightarrow>
        writePage address data t = (Throws (WritePageFailed address), t2))
   \<and> (notify options
          \<lparr>stage = Uploading, progress = Interpolated i n, message = UploadingPercent\<rparr> s
          = (Returns (), s1)
        \<and> 11 \<le> length line \<and> isDataRecord line
        \<and> writePage (recordAddressOf line) (dataOf line) (tr s1) = (Throws e, t') \<longrightarrow>
        uploadLoop options n i (line # rest) s = (Throws e, s1\<lparr>tr := t'\<rparr>))
   \<and> (initializeConnection (Some port) (baudRate options) sa = (Returns (), sb)
        \<and> enterProgrammingMode options sb = (Returns (), sc)
        \<and> uploadHexData (hexData options) options sc = (Throws e, sd) \<longrightarrow>
        fst (uploadSketch port options sa) \<noteq> Returns True
        \<and> sent (tr (snd (uploadSketch port options sa))) = sent (tr sd))"
proof (intro conjI impI)
  assume "writePage address data t = (r, t')"
  then show "(sent t' = sent t \<and> (r = Throws WriterNotAvailable \<or> r = Throws WriteRejected))
      \<or> (sent t' = sent t @ [loadAddressBytes address]
          \<and> r \<noteq> Returns () \<and> r \<noteq> Throws (WritePageFailed address))
      \<or> (sent t' = sent t @ [loadAddressBytes address, progPageBytes data]
          \<and> r \<noteq> Throws (SetAddressFailed address)
          \<and> r \<noteq> Throws WriterNotAvailable \<and> r \<noteq> Throws WriteRejected)"
    by (rule writePage_sent)
next
  assume "0 \<le> a \<and> a < 65536"
  then show "uint (loadAddressBytes (Some a) ! 1) + 256 * uint (loadAddressBytes (Some a) ! 2) = a"
    using loadAddressBytes_value [of a] by blast
next
  assume "length data < 65536"
  then show "256 * unat (progPageBytes data ! 1) + unat (progPageBytes data ! 2) = length data"
    by (rule progPageBytes_length)
next
  assume "writer t \<and> \<not> write_rejects t (length (sent t))
        \<and> readResponse 2 (t\<lparr>sent := sent t @ [loadAddressBytes address]\<rparr>) = (Returns response, t2)
        \<and> \<not> inSyncOk response"
  then show "writePage address data t = (Throws (SetAddressFailed address), t2)"
    by (simp add: writePage_def exchange_def sendCommand_def loadAddressCommand_bytes)
next
  assume "exchange (loadAddressCommand address) (SetAddressFailed address) t = (Returns (), t1)
        \<and> \<not> write_rejects t1 (length (sent t1))
        \<and> readResponse 2 (t1\<lparr>sent := sent t1 @ [progPageBytes data]\<rparr>) = (Returns response, t2)
        \<and> \<not> inSyncOk response"
  moreover from this have "writer t1"
    by (auto simp: exchange_def sendCommand_def readResponse_def
        split: if_splits outcome.splits prod.splits)
  ultimately show "writePage address data t = (Throws (WritePageFailed address), t2)"
    by (simp add: writePage_def) (simp add: exchange_def sendCommand_def progPageCommand_bytes)
next
  assume "notify options
          \<lparr>stage = Uploading, progress = Interpolated i n, message = UploadingPercent\<rparr> s
          = (Returns (), s1)
        \<and> 11 \<le> length line \<and> isDataRecord line
        \<and> writePage (recordAddressOf line) (dataOf line) (tr s1) = (Throws e, t')"
  then show "uploadLoop options n i (line # rest) s = (Throws e, s1\<lparr>tr := t'\<rparr>)"
    by (simp add: onTransport_def)
next
  assume a: "initializeConnection (Some port) (baudRate options) sa = (Returns (), sb)
        \<and> enterProgrammingMode options sb = (Returns (), sc)
        \<and> uploadHexData (hexData options) options sc = (Throws e, sd)"
  then have "uploadSteps port options sa = (Throws e, sd)"
    by (intro uploadSteps_hex_throw) auto
  then have "fst (uploadSketch port options sa) \<noteq> Returns True
       \<and> sent (tr (snd (uploadSketch port options sa))) = sent (tr sd)"
    by (rule uploadSketch_after_throw)
  then show "fst (uploadSketch port options sa) \<noteq> Returns True"
    and "sent (tr (snd (uploadSketch port options sa))) = sent (tr sd)"
    by simp_all
qed


text \<open>One data record of two bytes at address 0x1234, and the end-of-file record.\<close>

definition oneRecordHex :: string where
  "oneRecordHex = '':02123400A1B265'' @ [CHR 0x0A] @ '':00000001FF''"

lemma oneRecordHex_lines: "hexLines oneRecordHex = ['':02123400A1B265'', '':00000001FF'']"
  by code_simp

lemma oneRecordHex_data:
  "isDataRecord '':02123400A1B265''"
  "recordAddressOf '':02123400A1B265'' = Some 0x1234"
  "dataOf '':02123400A1B265'' = [Some 0xA1, Some 0xB2]"
  "\<not> isDataRecord '':00000001FF''"
  by code_simp+

theorem writePage_protocol_witness:
  "writePage (Some 0x1234) [Some 0xA1, Some 0xB2]
      ((freshTransport [okReply, failedReply])\<lparr>reader := True, writer := True\<rparr>)
     = (Throws (WritePageFailed (Some 0x1234)),
        (freshTransport [])\<lparr>reader := True, writer := True,
          sent := [[0x55, 0x34, 0x12, 0x20], [0x64, 0, 2, 0x46, 0xA1, 0xB2, 0x20]]\<rparr>)
   \<and> loadAddressBytes (Some 0x1234) = [0x55, 0x34, 0x12, 0x20]
   \<and> progPageBytes [Some 0xA1, Some 0xB2] = [0x64, 0, 2, 0x46, 0xA1, 0xB2, 0x20]
   \<and> fst (uploadSketch goodPort (plainOptions oneRecordHex)
         (freshRun (freshTransport [okReply, okReply, okReply, failedReply, okReply, okReply])))
       \<noteq> Returns True
   \<and> sent (tr (snd (uploadSketch goodPort (plainOptions oneRecordHex)
         (freshRun (freshTransport [okReply, okReply, okReply, failedReply, okReply, okReply])))))
       = [[0x30, 0x20], [0x50, 0x20], [0x55, 0x34, 0x12, 0x20], [0x64, 0, 2, 0x46, 0xA1, 0xB2, 0x20]]"
proof -
  let ?t = "(freshTransport [okReply, failedReply])\<lparr>reader := True, writer := True\<rparr>"
  let ?t' = "(freshTransport [])\<lparr>reader := True, writer := True,
          sent := [[0x55, 0x34, 0x12, 0x20], [0x64, 0, 2, 0x46, 0xA1, 0xB2, 0x20]]\<rparr>"
  let ?s0 = "freshRun (freshTransport [okReply, okReply, okReply, failedReply, okReply, okReply])"
  let ?o = "plainOptions oneRecordHex"
  have w: "writePage (Some 0x1234) [Some 0xA1, Some 0xB2] ?t = (Throws (WritePageFailed (Some 0x1234)), ?t')"
    by (simp add: run_defs freshTransport_def okReply_def failedReply_def)
  have b: "loadAddressBytes (Some 0x1234) = [0x55, 0x34, 0x12, 0x20]"
    "progPageBytes [Some 0xA1, Some 0xB2] = [0x64, 0, 2, 0x46, 0xA1, 0xB2, 0x20]"
    by (simp_all add: loadAddressBytes_def progPageBytes_def lowByte_def highByte_def toUint8_def)
  obtain s4 where i: "initializeConnection (Some goodPort) (baudRate ?o) ?s0 = (Returns (), s4)"
    by (simp add: run_defs freshRun_def freshTransport_def goodPort_def)
  have s4: "s4 = snd (initializeConnection (Some goodPort) (baudRate ?o) ?s0)"
    using i by simp
  obtain s5 where e: "enterProgrammingMode ?o s4 = (Returns (), s5)"
    unfolding s4
    by (simp add: run_defs freshRun_def freshTransport_def goodPort_def plainOptions_def okReply_def)
  have s5: "s5 = snd (enterProgrammingMode ?o s4)"
    using e by simp
  obtain s6 where h: "uploadHexData (hexData ?o) ?o s5 = (Throws (WritePageFailed (Some 0x1234)), s6)"
    and s6: "sent (tr s6) = [[0x30, 0x20], [0x50, 0x20], [0x55, 0x34, 0x12, 0x20], [0x64, 0, 2, 0x46, 0xA1, 0xB2, 0x20]]"
    unfolding s5 s4
    by (simp add: run_defs freshRun_def freshTransport_def goodPort_def plainOptions_def okReply_def
        failedReply_def oneRecordHex_lines oneRecordHex_data)
  from writePage_protocol [where options = ?o and port = goodPort and sa = ?s0 and sb = s4
         and sc = s5 and e = "WritePageFailed (Some 0x1234)" and sd = s6]
       i e h
  have "fst (uploadSketch goodPort ?o ?s0) \<noteq> Returns True
        \<and> sent (tr (snd (uploadSketch goodPort ?o ?s0))) = sent (tr s6)"
    by blast
  with w b s6 show ?thesis by simp
qed


section \<open>Progress\<close>

text \<open>The snapshot that the loop over the lines emits for line \<open>i\<close> of \<open>n\<close>.\<close>

definition loopSnapshot :: "nat \<Rightarrow> nat \<Rightarrow> UploadProgress" where
  "loopSnapshot n i = \<lparr>stage = Uploading, progress = Interpolated i n, message = UploadingPercent\<rparr>"

lemma notify_Some:
  "onProgress options = Some cb \<Longrightarrow>
   notify options p s =
     (if cb (progress_log s @ [p]) then Throws CallbackThrew else Returns (),
      s\<lparr>progress_log := progress_log s @ [p]\<rparr>)"
  by (simp add: notify_def Let_def)

lemma notify_None: "onProgress options = None \<Longrightarrow> notify options p s = (Returns (), s)"
  by (simp add: notify_def)

lemma notify_log:
  "onProgress options = Some cb \<Longrightarrow> progress_log (snd (notify options p s)) = progress_log s @ [p]"
  by (simp add: notify_Some)

lemma onTransport_log: "progress_log (snd (onTransport f s)) = progress_log s"
  by (cases "f (tr s)") (simp add: onTransport_def)

lemma delay_log: "progress_log (delay ms s) = progress_log s"
  by (simp add: delay_def)

lemma syncLoop_log: "progress_log (snd (syncLoop a s)) = progress_log s"
proof (induction a s rule: syncLoop.induct)
  case (1 a s)
  show ?case
  proof (cases "a < maxSyncAttempts")
    case False
    then show ?thesis by (subst syncLoop.simps) simp
  next
    case True
    obtain r t where st: "syncAttempt (tr s) = (r, t)" by (cases "syncAttempt (tr s)")
    show ?thesis
    proof (cases r)
      case (Returns insync)
      show ?thesis
      proof (cases insync)
        case True
        with \<open>a < maxSyncAttempts\<close> st Returns show ?thesis by (subst syncLoop.simps) simp
      next
        case False
        from "1.IH"(1) [OF \<open>a < maxSyncAttempts\<close> st [symmetric] Returns False]
        have "progress_log (snd (syncLoop a (s\<lparr>tr := t\<rparr>))) = progress_log (s\<lparr>tr := t\<rparr>)"
          by simp
        with \<open>a < maxSyncAttempts\<close> st Returns False show ?thesis
          by (subst syncLoop.simps) simp
      qed
    next
      case (Throws e)
      show ?thesis
      proof (cases "maxSyncAttempts \<le> a + 1")
        case True
        with \<open>a < maxSyncAttempts\<close> st Throws show ?thesis by (subst syncLoop.simps) simp
      next
        case False
        from "1.IH"(2) [OF \<open>a < maxSyncAttempts\<close> st [symmetric] Throws False]
        have "progress_log (snd (syncLoop (a + 1) (delay 100 (s\<lparr>tr := t\<rparr>))))
              = progress_log (delay 100 (s\<lparr>tr := t\<rparr>))"
          by simp
        with \<open>a < maxSyncAttempts\<close> st Throws False show ?thesis
          by (subst syncLoop.simps) (simp add: delay_def)
      qed
    next
      case Blocks
      with \<open>a < maxSyncAttempts\<close> st show ?thesis by (subst syncLoop.simps) simp
    qed
  qed
qed


lemma enterProgrammingMode_log:
  assumes "enterProgrammingMode options s = (Returns (), s')" "onProgress options = Some cb"
  shows "progress_log s' = progress_log s @
     [\<lparr>stage = Connecting, progress = Exact 10, message = Literal ''Connecting to bootloader...''\<rparr>,
      \<lparr>stage = Syncing, progress = Exact 20, message = Literal ''Synced with bootloader''\<rparr>]"
proof -
  let ?p1 = "\<lparr>stage = Connecting, progress = Exact 10, message = Literal ''Connecting to bootloader...''\<rparr>"
  let ?p2 = "\<lparr>stage = Syncing, progress = Exact 20, message = Literal ''Synced with bootloader''\<rparr>"
  let ?s1 = "s\<lparr>progress_log := progress_log s @ [?p1]\<rparr>"
  obtain r2 s2 where sl: "syncLoop 0 ?s1 = (r2, s2)" by (cases "syncLoop 0 ?s1")
  with syncLoop_log [of 0 ?s1] have l2: "progress_log s2 = progress_log s @ [?p1]" by simp
  let ?s3 = "s2\<lparr>progress_log := progress_log s2 @ [?p2]\<rparr>"
  let ?x = "exchange [Some STK_ENTER_PROGMODE, Some STK_CRC_EOP] EnterProgModeFailed"
  have l4: "progress_log (snd (onTransport ?x ?s3)) = progress_log ?s3"
    by (rule onTransport_log)
  from assms sl have "s' = snd (onTransport ?x ?s3)"
    by (auto simp: enterProgrammingMode_def andThen_def notify_Some split: if_splits outcome.splits)
  with l4 l2 show ?thesis by simp
qed

lemma uploadLoop_log:
  assumes "uploadLoop options n i lines s = (Returns (), s')" "onProgress options = Some cb"
  shows "progress_log s' = progress_log s @ map (loopSnapshot n) [i..<i + length lines]"
  using assms(1)
proof (induction lines arbitrary: i s)
  case Nil
  then show ?case by simp
next
  case (Cons line rest)
  let ?s1 = "s\<lparr>progress_log := progress_log s @ [loopSnapshot n i]\<rparr>"
  have n1: "notify options (loopSnapshot n i) s =
      (if cb (progress_log s @ [loopSnapshot n i]) then Throws CallbackThrew else Returns (), ?s1)"
    using assms(2) by (rule notify_Some)
  from Cons.prems n1 have ok: "\<not> cb (progress_log s @ [loopSnapshot n i])"
    by (auto simp: loopSnapshot_def split: if_splits)
  have up: "[i..<i + length (line # rest)] = i # [Suc i..<Suc i + length rest]"
    by (simp add: upt_rec)
  show ?case
  proof (cases "length line < 11")
    case True
    with Cons.prems n1 ok have "uploadLoop options n (Suc i) rest ?s1 = (Returns (), s')"
      by (simp add: loopSnapshot_def)
    from Cons.IH [OF this] show ?thesis unfolding up by simp
  next
    case False
    show ?thesis
    proof (cases "isDataRecord line")
      case False
      with Cons.prems n1 ok \<open>\<not> length line < 11\<close>
      have "uploadLoop options n (Suc i) rest (delay 10 ?s1) = (Returns (), s')"
        by (simp add: loopSnapshot_def)
      from Cons.IH [OF this] show ?thesis unfolding up by (simp add: delay_def)
    next
      case True
      let ?w = "onTransport (writePage (recordAddressOf line) (dataOf line)) ?s1"
      obtain r2 s2 where w: "?w = (r2, s2)" by (cases ?w)
      with onTransport_log [of "writePage (recordAddressOf line) (dataOf line)" ?s1]
      have l2: "progress_log s2 = progress_log ?s1" by simp
      from Cons.prems n1 ok \<open>\<not> length line < 11\<close> True w
      have "uploadLoop options n (Suc i) rest (delay 10 s2) = (Returns (), s')"
        by (auto simp: loopSnapshot_def split: outcome.splits)
      from Cons.IH [OF this] l2 show ?thesis unfolding up by (simp add: delay_def)
    qed
  qed
qed

lemma uploadHexData_log:
  assumes "uploadHexData text options s = (Returns (), s')" "onProgress options = Some cb"
  shows "progress_log s' = progress_log s @
     \<lparr>stage = Uploading, progress = Exact 30, message = Literal ''Uploading sketch...''\<rparr>
     # map (loopSnapshot (length (hexLines text))) [0..<length (hexLines text)]"
proof -
  let ?p = "\<lparr>stage = Uploading, progress = Exact 30, message = Literal ''Uploading sketch...''\<rparr>"
  let ?s1 = "s\<lparr>progress_log := progress_log s @ [?p]\<rparr>"
  from assms have "uploadLoop options (length (hexLines text)) 0 (hexLines text) ?s1 = (Returns (), s')"
    by (auto simp: uploadHexData_def andThen_def notify_Some split: if_splits)
  from uploadLoop_log [OF this assms(2)] show ?thesis by simp
qed

lemma verifyUpload_log:
  assumes "verifyUpload text options s = (Returns (), s')" "onProgress options = Some cb"
  shows "progress_log s' = progress_log s @
     [\<lparr>stage = Verifying, progress = Exact 85, message = Literal ''Verifying upload...''\<rparr>,
      \<lparr>stage = Verifying, progress = Exact 95, message = Literal ''Verification complete''\<rparr>]"
  using assms
  by (auto simp: verifyUpload_def andThen_def notify_Some delay_def split: if_splits)

lemma initializeConnection_log: "progress_log (snd (initializeConnection port baud s)) = progress_log s"
proof (cases port)
  case None
  then show ?thesis by (simp add: initializeConnection_def)
next
  case (Some p)
  let ?s1 = "delay 2000 (resetArduino port s)"
  have l1: "progress_log ?s1 = progress_log s"
    by (simp add: delay_def resetArduino_def Some split: option.splits)
  obtain r2 s2 where a: "onTransport (acquireReader p) ?s1 = (r2, s2)"
    by (cases "onTransport (acquireReader p) ?s1")
  with onTransport_log [of "acquireReader p" ?s1] l1 have l2: "progress_log s2 = progress_log s"
    by simp
  have "progress_log (snd (onTransport (acquireWriter p) s2)) = progress_log s2"
    by (rule onTransport_log)
  with a l2 Some show ?thesis
    by (cases r2) (simp_all add: initializeConnection_def andThen_def Let_def)
qed

text \<open>The snapshots of a run that succeeds.\<close>

definition successLog :: "nat \<Rightarrow> UploadProgress list" where
  "successLog n =
     [\<lparr>stage = Connecting, progress = Exact 10, message = Literal ''Connecting to bootloader...''\<rparr>,
      \<lparr>stage = Syncing, progress = Exact 20, message = Literal ''Synced with bootloader''\<rparr>,
      \<lparr>stage = Uploading, progress = Exact 30, message = Literal ''Uploading sketch...''\<rparr>]
     @ map (loopSnapshot n) [0..<n]
     @ [\<lparr>stage = Verifying, progress = Exact 85, message = Literal ''Verifying upload...''\<rparr>,
        \<lparr>stage = Verifying, progress = Exact 95, message = Literal ''Verification complete''\<rparr>,
        \<lparr>stage = Complete, progress = Exact 100, message = Literal ''Upload completed successfully!''\<rparr>]"

lemma uploadSteps_log:
  assumes "uploadSteps port options s = (Returns (), s')" "onProgress options = Some cb"
  shows "progress_log s' = progress_log s @ successLog (length (hexLines (hexData options)))"
proof -
  obtain r1 s1 where i: "initializeConnection (Some port) (baudRate options) s = (r1, s1)"
    by (cases "initializeConnection (Some port) (baudRate options) s")
  obtain r2 s2 where e: "enterProgrammingMode options s1 = (r2, s2)"
    by (cases "enterProgrammingMode options s1")
  obtain r3 s3 where h: "uploadHexData (hexData options) options s2 = (r3, s3)"
    by (cases "uploadHexData (hexData options) options s2")
  obtain r4 s4 where v: "verifyUpload (hexData options) options s3 = (r4, s4)"
    by (cases "verifyUpload (hexData options) options s3")
  obtain r5 s5 where l: "leaveProgrammingMode options s4 = (r5, s5)"
    by (cases "leaveProgrammingMode options s4")
  from assms(1) i e h v l have rs: "r1 = Returns ()" "r2 = Returns ()" "r3 = Returns ()"
    "r4 = Returns ()" "r5 = Returns ()"
    by (auto simp: uploadSteps_def andThen_def split: outcome.splits)
  let ?c = "\<lparr>stage = Complete, progress = Exact 100, message = Literal ''Upload completed successfully!''\<rparr>"
  from assms(1) i e h v l rs have f: "notify options ?c s5 = (Returns (), s')"
    by (simp add: uploadSteps_def andThen_def)
  from initializeConnection_log [of "Some port" "baudRate options" s] i
  have l1: "progress_log s1 = progress_log s" by simp
  note l2 = enterProgrammingMode_log [OF e [unfolded rs] assms(2)]
  note l3 = uploadHexData_log [OF h [unfolded rs] assms(2)]
  note l4 = verifyUpload_log [OF v [unfolded rs] assms(2)]
  from onTransport_log l have l5: "progress_log s5 = progress_log s4"
    by (metis leaveProgrammingMode_def snd_conv)
  from notify_log [OF assms(2), of ?c s5] f have l6: "progress_log s' = progress_log s5 @ [?c]"
    by simp
  show ?thesis
    unfolding l6 l5 l4 l3 l2 l1 successLog_def by simp
qed

lemma loopValue_mono:
  assumes "rounding rnd" "i \<le> j"
  shows "percentValue rnd (Interpolated i n) \<le> percentValue rnd (Interpolated j n)"
proof -
  from assms(1) have m: "x \<le> y \<Longrightarrow> rnd x \<le> rnd y" for x y
    by (simp add: rounding_def)
  from assms(2) have "(of_nat i :: rat) / of_nat n \<le> of_nat j / of_nat n"
    by (simp add: divide_right_mono)
  then have "rnd (of_nat i / of_nat n) * 50 \<le> rnd (of_nat j / of_nat n) * 50"
    by (intro mult_right_mono m) simp_all
  then have "30 + rnd (rnd (of_nat i / of_nat n) * 50) \<le> 30 + rnd (rnd (of_nat j / of_nat n) * 50)"
    by (intro add_left_mono m)
  then show ?thesis by (simp add: m)
qed

lemma loopValue_lower:
  assumes "rounding rnd"
  shows "30 \<le> percentValue rnd (Interpolated i n)"
proof -
  from assms have m: "x \<le> y \<Longrightarrow> rnd x \<le> rnd y" for x y
    by (simp add: rounding_def)
  from assms have z: "rnd 0 = 0" "rnd 30 = 30" by (simp_all add: rounding_def)
  have "rnd 0 \<le> rnd (of_nat i / of_nat n)" by (intro m) simp
  with z have "0 \<le> rnd (of_nat i / of_nat n) * 50" by simp
  then have "rnd 0 \<le> rnd (rnd (of_nat i / of_nat n) * 50)" by (rule m)
  with z have "30 \<le> 30 + rnd (rnd (of_nat i / of_nat n) * 50)" by simp
  then have "rnd 30 \<le> rnd (30 + rnd (rnd (of_nat i / of_nat n) * 50))" by (rule m)
  with z show ?thesis by simp
qed

lemma loopValue_upper:
  assumes "rounding rnd" "i < n"
  shows "percentValue rnd (Interpolated i n) \<le> 80"
proof -
  from assms(1) have m: "x \<le> y \<Longrightarrow> rnd x \<le> rnd y" for x y
    by (simp add: rounding_def)
  from assms(1) have z: "rnd 1 = 1" "rnd 50 = 50" "rnd 80 = 80" by (simp_all add: rounding_def)
  from assms(2) have "(of_nat i :: rat) / of_nat n \<le> 1" by (simp add: divide_le_eq_1)
  then have "rnd (of_nat i / of_nat n) \<le> rnd 1" by (rule m)
  with z have "rnd (of_nat i / of_nat n) * 50 \<le> 50" by simp
  then have "rnd (rnd (of_nat i / of_nat n) * 50) \<le> rnd 50" by (rule m)
  with z have "30 + rnd (rnd (of_nat i / of_nat n) * 50) \<le> 80" by simp
  then have "rnd (30 + rnd (rnd (of_nat i / of_nat n) * 50)) \<le> rnd 80" by (rule m)
  with z show ?thesis by simp
qed

lemma sorted_loopValues:
  assumes "rounding rnd"
  shows "sorted (map (\<lambda>i. percentValue rnd (Interpolated i n)) [0..<n])"
proof -
  have "sorted_wrt (\<lambda>x y. percentValue rnd (Interpolated x n) \<le> percentValue rnd (Interpolated y n)) [0..<n]"
    by (rule sorted_wrt_mono_rel [of _ "(\<le>)"])
      (simp_all add: loopValue_mono [OF assms] del: percentValue.simps)
  then show ?thesis by (simp add: sorted_map)
qed

lemma successLog_sorted:
  assumes "rounding rnd"
  shows "sorted (map (percentValue rnd \<circ> progress) (successLog n))"
proof -
  have m: "map (percentValue rnd \<circ> progress) (successLog n)
      = [10, 20, 30] @ map (\<lambda>i. percentValue rnd (Interpolated i n)) [0..<n] @ [85, 95, 100]"
    by (simp add: successLog_def loopSnapshot_def comp_def)
  have "\<forall>x \<in> set (map (\<lambda>i. percentValue rnd (Interpolated i n)) [0..<n]). 30 \<le> x \<and> x \<le> 80"
    using loopValue_lower [OF assms] loopValue_upper [OF assms] by auto
  with sorted_loopValues [OF assms, of n] show ?thesis
    unfolding m by (fastforce simp: sorted_append)
qed

lemma successLog_last: "successLog n \<noteq> [] \<and> progress (last (successLog n)) = Exact 100"
  by (simp add: successLog_def)

text \<open>
  C5. When \<^verbatim>\<open>uploadSketch\<close> returns true and a callback is present, the snapshots
  emitted during the run are 10, 20, 30, then \<^verbatim>\<open>30 + (i / n) * 50\<close> for each of the
  \<open>n\<close> lines, then 85, 95 and 100: under every rounding their percentages never
  decrease, and the last one is 100.
\<close>

theorem success_progress_monotone:
  assumes "uploadSketch port options s = (Returns True, s')" "onProgress options = Some cb"
    and "rounding rnd"
  shows "\<exists>ps. progress_log s' = progress_log s @ ps \<and> ps \<noteq> []
          \<and> sorted (map (percentValue rnd \<circ> progress) ps) \<and> progress (last ps) = Exact 100"
proof -
  obtain r1 s1 where st: "uploadSteps port options s = (r1, s1)"
    by (cases "uploadSteps port options s")
  from assms(1) st have "r1 = Returns ()" "progress_log s' = progress_log s1"
    by (auto simp: uploadSketch_def split: outcome.splits prod.splits option.splits)
  with uploadSteps_log [OF _ assms(2)] st
  have "progress_log s' = progress_log s @ successLog (length (hexLines (hexData options)))"
    by simp
  with successLog_sorted [OF assms(3)] successLog_last show ?thesis by blast
qed

text \<open>
  Three data records of 16, 16 and 8 bytes and the end-of-file record, on a device
  that answers every command with in-sync/OK.
\<close>

definition threeRecordHex :: string where
  "threeRecordHex =
     '':100000000C945C000C946E000C945C000C946E00DC'' @ [CHR 0x0A] @
     '':100010000C945C000C946E000C945C000C946E00CC'' @ [CHR 0x0A] @
     '':080020000C945C000C946E00CE'' @ [CHR 0x0A] @
     '':00000001FF'' @ [CHR 0x0A]"

definition nineOkReplies :: "read_event list" where
  "nineOkReplies =
     [okReply, okReply, okReply, okReply, okReply, okReply, okReply, okReply, okReply]"

lemma threeRecordHex_lines:
  "hexLines threeRecordHex =
     ['':100000000C945C000C946E000C945C000C946E00DC'',
      '':100010000C945C000C946E000C945C000C946E00CC'',
      '':080020000C945C000C946E00CE'',
      '':00000001FF'']"
  by code_simp

lemma threeRecordHex_data:
  "isDataRecord '':100000000C945C000C946E000C945C000C946E00DC''"
  "recordAddressOf '':100000000C945C000C946E000C945C000C946E00DC'' = Some 0"
  "dataOf '':100000000C945C000C946E000C945C000C946E00DC'' =
     map Some [12, 148, 92, 0, 12, 148, 110, 0, 12, 148, 92, 0, 12, 148, 110, 0]"
  "isDataRecord '':100010000C945C000C946E000C945C000C946E00CC''"
  "recordAddressOf '':100010000C945C000C946E000C945C000C946E00CC'' = Some 16"
  "dataOf '':100010000C945C000C946E000C945C000C946E00CC'' =
     map Some [12, 148, 92, 0, 12, 148, 110, 0, 12, 148, 92, 0, 12, 148, 110, 0]"
  "isDataRecord '':080020000C945C000C946E00CE''"
  "recordAddressOf '':080020000C945C000C946E00CE'' = Some 32"
  "dataOf '':080020000C945C000C946E00CE'' = map Some [12, 148, 92, 0, 12, 148, 110, 0]"
  "\<not> isDataRecord '':00000001FF''"
  by code_simp+

lemma threeRecord_run:
  "fst (uploadSketch goodPort (plainOptions threeRecordHex) (freshRun (freshTransport nineOkReplies)))
     = Returns True"
  "map progress (progress_log (snd (uploadSketch goodPort (plainOptions threeRecordHex)
       (freshRun (freshTransport nineOkReplies)))))
     = [Exact 10, Exact 20, Exact 30, Interpolated 0 4, Interpolated 1 4, Interpolated 2 4,
        Interpolated 3 4, Exact 85, Exact 95, Exact 100]"
  by (simp_all add: run_defs freshRun_def freshTransport_def goodPort_def plainOptions_def
      okReply_def nineOkReplies_def threeRecordHex_lines threeRecordHex_data)

theorem success_progress_monotone_witness:
  "fst (uploadSketch goodPort (plainOptions threeRecordHex) (freshRun (freshTransport nineOkReplies)))
     = Returns True
   \<and> map (percentValue (\<lambda>x. x) \<circ> progress)
        (progress_log (snd (uploadSketch goodPort (plainOptions threeRecordHex)
           (freshRun (freshTransport nineOkReplies)))))
     = [10, 20, 30, 30, 85 / 2, 55, 135 / 2, 85, 95, 100]
   \<and> sorted (map (percentValue (\<lambda>x. x) \<circ> progress)
        (progress_log (snd (uploadSketch goodPort (plainOptions threeRecordHex)
           (freshRun (freshTransport nineOkReplies))))))
   \<and> progress (last (progress_log (snd (uploadSketch goodPort (plainOptions threeRecordHex)
         (freshRun (freshTransport nineOkReplies)))))) = Exact 100"
proof -
  let ?s = "freshRun (freshTransport nineOkReplies)"
  let ?u = "uploadSketch goodPort (plainOptions threeRecordHex) ?s"
  have u: "?u = (Returns True, snd ?u)"
    using threeRecord_run(1) by (cases ?u) simp
  have cb: "onProgress (plainOptions threeRecordHex) = Some (\<lambda>_. False)"
    by (simp add: plainOptions_def)
  have r: "rounding (\<lambda>x. x)"
    by (simp add: rounding_def)
  have e: "progress_log ?s = []"
    by (simp add: freshRun_def)
  from success_progress_monotone [OF u cb r] e
  have "sorted (map (percentValue (\<lambda>x. x) \<circ> progress) (progress_log (snd ?u)))"
    and "progress (last (progress_log (snd ?u))) = Exact 100"
    by auto
  moreover have "map (percentValue (\<lambda>x. x) \<circ> progress) (progress_log (snd ?u))
      = [10, 20, 30, 30, 85 / 2, 55, 135 / 2, 85, 95, 100]"
    using threeRecord_run(2) by (simp flip: map_map)
  ultimately show ?thesis using threeRecord_run(1) by simp
qed

section \<open>The result of the upload\<close>

definition noErrorStage :: "UploadProgress list \<Rightarrow> bool" where
  "noErrorStage ps = list_all (\<lambda>p. stage p \<noteq> Error) ps"

definition callbackNeverThrows :: "UploadOptions \<Rightarrow> bool" where
  "callbackNeverThrows options =
     (case onProgress options of None \<Rightarrow> True | Some cb \<Rightarrow> \<forall>h. \<not> cb h)"

text \<open>The log of \<open>s'\<close> is the log of \<open>s\<close> followed by snapshots of other stages than \<open>Error\<close>.\<close>

definition grows :: "run \<Rightarrow> run \<Rightarrow> bool" where
  "grows s s' = (\<exists>ps. progress_log s' = progress_log s @ ps \<and> noErrorStage ps)"

lemma grows_eq: "progress_log s' = progress_log s \<Longrightarrow> grows s s'"
  by (simp add: grows_def noErrorStage_def)

lemma grows_trans: "grows a b \<Longrightarrow> grows b c \<Longrightarrow> grows a c"
  by (auto simp: grows_def noErrorStage_def)

lemma grows_notify: "stage p \<noteq> Error \<Longrightarrow> grows s (snd (notify options p s))"
  by (cases "onProgress options") (simp_all add: notify_None notify_Some grows_def noErrorStage_def)

lemma grows_andThen:
  assumes "grows s (snd m)" "\<And>x s1. grows s1 (snd (f x s1))"
  shows "grows s (snd (andThen m f))"
proof (cases m)
  case (Pair r s1)
  show ?thesis
  proof (cases r)
    case (Returns x)
    with Pair assms(1) assms(2) [of s1 x] show ?thesis
      by (auto simp: andThen_def intro: grows_trans)
  next
    case (Throws e)
    with Pair assms(1) show ?thesis by (simp add: andThen_def)
  next
    case Blocks
    with Pair assms(1) show ?thesis by (simp add: andThen_def)
  qed
qed

lemma grows_onTransport: "grows s (snd (onTransport f s))"
  by (rule grows_eq) (rule onTransport_log)

lemma grows_uploadLoop: "grows s (snd (uploadLoop options n i lines s))"
proof (induction lines arbitrary: i s)
  case Nil
  show ?case by (simp add: grows_eq)
next
  case (Cons line rest)
  let ?p = "\<lparr>stage = Uploading, progress = Interpolated i n, message = UploadingPercent\<rparr>"
  obtain r1 s1 where n1: "notify options ?p s = (r1, s1)" by (cases "notify options ?p s")
  with grows_notify [of ?p s options] have g1: "grows s s1" by simp
  show ?case
  proof (cases r1)
    case (Throws e)
    with n1 g1 show ?thesis by simp
  next
    case Blocks
    with n1 g1 show ?thesis by simp
  next
    case (Returns x)
    show ?thesis
    proof (cases "length line < 11")
      case True
      with n1 Returns grows_trans [OF g1 Cons.IH [of s1 "i + 1"]] show ?thesis by simp
    next
      case False
      show ?thesis
      proof (cases "isDataRecord line")
        case False
        have "grows s1 (delay 10 s1)" by (simp add: grows_eq delay_def)
        from grows_trans [OF g1 grows_trans [OF this Cons.IH [of "delay 10 s1" "i + 1"]]]
          n1 Returns False \<open>\<not> length line < 11\<close>
        show ?thesis by simp
      next
        case True
        let ?w = "onTransport (writePage (recordAddressOf line) (dataOf line)) s1"
        obtain r2 s2 where w: "?w = (r2, s2)" by (cases ?w)
        with grows_onTransport [of s1 "writePage (recordAddressOf line) (dataOf line)"]
        have g2: "grows s1 s2" by simp
        have g3: "grows s2 (delay 10 s2)" by (simp add: grows_eq delay_def)
        show ?thesis
        proof (cases r2)
          case (Returns y)
          from grows_trans [OF g1 grows_trans [OF g2 grows_trans [OF g3 Cons.IH [of "delay 10 s2" "i + 1"]]]]
            n1 \<open>r1 = Returns x\<close> True \<open>\<not> length line < 11\<close> w Returns
          show ?thesis by simp
        next
          case (Throws e)
          with grows_trans [OF g1 g2] n1 \<open>r1 = Returns x\<close> True \<open>\<not> length line < 11\<close> w
          show ?thesis by simp
        next
          case Blocks
          with grows_trans [OF g1 g2] n1 \<open>r1 = Returns x\<close> True \<open>\<not> length line < 11\<close> w
          show ?thesis by simp
        qed
      qed
    qed
  qed
qed

lemma grows_uploadSteps: "grows s (snd (uploadSteps port options s))"
  unfolding uploadSteps_def enterProgrammingMode_def uploadHexData_def verifyUpload_def
    leaveProgrammingMode_def
  by (intro grows_andThen grows_notify grows_onTransport grows_uploadLoop
      grows_eq initializeConnection_log syncLoop_log grows_trans [OF grows_eq [OF delay_log] grows_notify])
    simp_all

lemma notify_never_throws:
  "callbackNeverThrows options \<Longrightarrow> fst (notify options p s) = Returns ()"
  by (cases "onProgress options") (simp_all add: callbackNeverThrows_def notify_None notify_Some)

text \<open>
  No step of the upload changes whether thrown values convert to a string.
\<close>

lemma notify_converts: "thrown_converts (snd (notify options p s)) = thrown_converts s"
  by (simp add: notify_def Let_def split: option.splits)

lemma onTransport_converts: "thrown_converts (snd (onTransport f s)) = thrown_converts s"
  by (cases "f (tr s)") (simp add: onTransport_def)

lemma delay_converts: "thrown_converts (delay ms s) = thrown_converts s"
  by (simp add: delay_def)

lemma andThen_converts:
  assumes "thrown_converts (snd m) = c"
    and "\<And>x s1. thrown_converts (snd (f x s1)) = thrown_converts s1"
  shows "thrown_converts (snd (andThen m f)) = c"
proof (cases m)
  case (Pair r s1)
  with assms(1) assms(2) [of _ s1] show ?thesis
    by (cases r) (simp_all add: andThen_def)
qed

lemma initializeConnection_converts:
  "thrown_converts (snd (initializeConnection port baud s)) = thrown_converts s"
proof (cases port)
  case None
  then show ?thesis by (simp add: initializeConnection_def)
next
  case (Some p)
  let ?s1 = "delay 2000 (resetArduino port s)"
  have "thrown_converts ?s1 = thrown_converts s"
    by (simp add: delay_def resetArduino_def Some split: option.splits)
  then have "thrown_converts (snd (andThen (onTransport (acquireReader p) ?s1)
      (\<lambda>_. onTransport (acquireWriter p)))) = thrown_converts s"
    by (intro andThen_converts) (simp_all add: onTransport_converts)
  with Some show ?thesis by (simp add: initializeConnection_def Let_def)
qed

lemma syncLoop_converts: "thrown_converts (snd (syncLoop a s)) = thrown_converts s"
proof (induction a s rule: syncLoop.induct)
  case (1 a s)
  show ?case
  proof (cases "a < maxSyncAttempts")
    case False
    then show ?thesis by (subst syncLoop.simps) simp
  next
    case True
    obtain r t where st: "syncAttempt (tr s) = (r, t)" by (cases "syncAttempt (tr s)")
    show ?thesis
    proof (cases r)
      case (Returns insync)
      show ?thesis
      proof (cases insync)
        case True
        with \<open>a < maxSyncAttempts\<close> st Returns show ?thesis by (subst syncLoop.simps) simp
      next
        case False
        from "1.IH"(1) [OF \<open>a < maxSyncAttempts\<close> st [symmetric] Returns False]
        have "thrown_converts (snd (syncLoop a (s\<lparr>tr := t\<rparr>))) = thrown_converts (s\<lparr>tr := t\<rparr>)"
          by simp
        with \<open>a < maxSyncAttempts\<close> st Returns False show ?thesis
          by (subst syncLoop.simps) simp
      qed
    next
      case (Throws e)
      show ?thesis
      proof (cases "maxSyncAttempts \<le> a + 1")
        case True
        with \<open>a < maxSyncAttempts\<close> st Throws show ?thesis by (subst syncLoop.simps) simp
      next
        case False
        from "1.IH"(2) [OF \<open>a < maxSyncAttempts\<close> st [symmetric] Throws False]
        have "thrown_converts (snd (syncLoop (a + 1) (delay 100 (s\<lparr>tr := t\<rparr>))))
              = thrown_converts (delay 100 (s\<lparr>tr := t\<rparr>))"
          by simp
        with \<open>a < maxSyncAttempts\<close> st Throws False show ?thesis
          by (subst syncLoop.simps) (simp add: delay_def)
      qed
    next
      case Blocks
      with \<open>a < maxSyncAttempts\<close> st show ?thesis by (subst syncLoop.simps) simp
    qed
  qed
qed

lemma uploadLoop_converts:
  "thrown_converts (snd (uploadLoop options n i lines s)) = thrown_converts s"
proof (induction lines arbitrary: i s)
  case Nil
  show ?case by simp
next
  case (Cons line rest)
  let ?p = "\<lparr>stage = Uploading, progress = Interpolated i n, message = UploadingPercent\<rparr>"
  obtain r1 s1 where n1: "notify options ?p s = (r1, s1)" by (cases "notify options ?p s")
  with notify_converts [of options ?p s] have c1: "thrown_converts s1 = thrown_converts s" by simp
  let ?w = "onTransport (writePage (recordAddressOf line) (dataOf line)) s1"
  obtain r2 s2 where w: "?w = (r2, s2)" by (cases ?w)
  with onTransport_converts [of "writePage (recordAddressOf line) (dataOf line)" s1]
  have c2: "thrown_converts s2 = thrown_converts s1" by simp
  have c3: "thrown_converts (snd (uploadLoop options n (i + 1) rest (delay 10 t))) = thrown_converts t"
    for t
    by (simp add: Cons.IH delay_converts)
  note c4 = Cons.IH [of "i + 1" s1]
  from n1 w c1 c2 c3 c4 show ?case
    by (cases r1; cases r2) simp_all
qed

lemma uploadSteps_converts:
  "thrown_converts (snd (uploadSteps port options s)) = thrown_converts s"
  unfolding uploadSteps_def enterProgrammingMode_def uploadHexData_def verifyUpload_def
    leaveProgrammingMode_def
  by (intro andThen_converts)
    (simp_all add: initializeConnection_converts notify_converts onTransport_converts
      uploadLoop_converts syncLoop_converts delay_converts)

text \<open>
  The result of \<^verbatim>\<open>uploadSketch\<close> when the \<^verbatim>\<open>catch\<close> meets no value that fails to
  convert: thrown values convert to a string, or no callback is present and the
  template literal is not evaluated. With a callback that never throws (or none),
  \<^verbatim>\<open>uploadSketch\<close> then returns true when its steps return, returns false when one of
  them throws, stays pending when one of them never settles, and does not throw. When
  it returns false and a callback is present, the snapshots emitted during the run end
  with the one snapshot of stage \<open>Error\<close>, whose progress is 0; none of the earlier
  ones has that stage.
\<close>

lemma uploadSketch_result:
  assumes "callbackNeverThrows options"
    and "thrown_converts s \<or> onProgress options = None"
  shows "(fst (uploadSteps port options s) = Returns () \<longrightarrow>
            fst (uploadSketch port options s) = Returns True)
       \<and> ((\<exists>e. fst (uploadSteps port options s) = Throws e) \<longrightarrow>
            fst (uploadSketch port options s) = Returns False)
       \<and> (fst (uploadSteps port options s) = Blocks \<longrightarrow>
            fst (uploadSketch port options s) = Blocks)
       \<and> (\<forall>e. fst (uploadSketch port options s) \<noteq> Throws e)
       \<and> (fst (uploadSketch port options s) = Returns False \<and> onProgress options \<noteq> None \<longrightarrow>
            (\<exists>ps e. progress_log (snd (uploadSketch port options s))
                      = progress_log s @ ps @ [\<lparr>stage = Error, progress = Exact 0, message = UploadFailed e\<rparr>]
                    \<and> noErrorStage ps))"
proof -
  obtain r1 s1 where st: "uploadSteps port options s = (r1, s1)"
    by (cases "uploadSteps port options s")
  from grows_uploadSteps [of s port options] st
  obtain ps where ps: "progress_log s1 = progress_log s @ ps" "noErrorStage ps"
    by (auto simp: grows_def)
  from uploadSteps_converts [of port options s] st
  have cv: "thrown_converts s1 = thrown_converts s" by simp
  show ?thesis
  proof (cases r1)
    case (Returns x)
    with st show ?thesis by (simp add: uploadSketch_def)
  next
    case Blocks
    with st show ?thesis by (simp add: uploadSketch_def)
  next
    case (Throws e)
    show ?thesis
    proof (cases "onProgress options")
      case None
      with st Throws show ?thesis by (simp add: uploadSketch_def)
    next
      case (Some cb)
      with assms(2) cv have t: "errorText e s1 = Returns (UploadFailed e)"
        by (simp add: errorText_def)
      let ?p = "\<lparr>stage = Error, progress = Exact 0, message = UploadFailed e\<rparr>"
      obtain r2 s2 where n: "notify options ?p s1 = (r2, s2)" by (cases "notify options ?p s1")
      with notify_never_throws [OF assms(1), of ?p s1] have r2: "r2 = Returns ()" by simp
      have u: "uploadSketch port options s = (Returns False, s2\<lparr>tr := cleanup (tr s2)\<rparr>)"
        using st Throws n r2 Some t by (simp add: uploadSketch_def)
      from notify_log [OF Some, of ?p s1] n ps(1)
      have "progress_log s2 = progress_log s @ ps @ [?p]" by simp
      with u st Throws ps(2) show ?thesis by auto
    qed
  qed
qed

text \<open>
  A run in which the second page answer is in-sync/FAILED: the result is false and
  the last snapshot is the one of stage \<open>Error\<close>.
\<close>

lemma uploadSketch_result_failed_page:
  "fst (uploadSketch goodPort (plainOptions oneRecordHex)
          (freshRun (freshTransport [okReply, okReply, okReply, failedReply]))) = Returns False
   \<and> map progress (progress_log (snd (uploadSketch goodPort (plainOptions oneRecordHex)
          (freshRun (freshTransport [okReply, okReply, okReply, failedReply])))))
       = [Exact 10, Exact 20, Exact 30, Interpolated 0 2, Exact 0]
   \<and> (\<exists>ps e. progress_log (snd (uploadSketch goodPort (plainOptions oneRecordHex)
          (freshRun (freshTransport [okReply, okReply, okReply, failedReply]))))
        = ps @ [\<lparr>stage = Error, progress = Exact 0, message = UploadFailed e\<rparr>] \<and> noErrorStage ps)"
proof -
  let ?s = "freshRun (freshTransport [okReply, okReply, okReply, failedReply])"
  let ?o = "plainOptions oneRecordHex"
  have c: "callbackNeverThrows ?o"
    by (simp add: callbackNeverThrows_def plainOptions_def)
  have p: "onProgress ?o \<noteq> None"
    by (simp add: plainOptions_def)
  have e: "progress_log ?s = []" "thrown_converts ?s"
    by (simp_all add: freshRun_def)
  have r: "fst (uploadSketch goodPort ?o ?s) = Returns False"
    "map progress (progress_log (snd (uploadSketch goodPort ?o ?s)))
       = [Exact 10, Exact 20, Exact 30, Interpolated 0 2, Exact 0]"
    by (simp_all add: run_defs freshRun_def freshTransport_def goodPort_def plainOptions_def
        okReply_def failedReply_def oneRecordHex_lines oneRecordHex_data)
  from uploadSketch_result [OF c, of ?s goodPort] r(1) p e
  have "\<exists>ps e. progress_log (snd (uploadSketch goodPort ?o ?s))
        = ps @ [\<lparr>stage = Error, progress = Exact 0, message = UploadFailed e\<rparr>] \<and> noErrorStage ps"
    by simp
  with r show ?thesis by simp
qed

text \<open>
  C10. The claim has \<^verbatim>\<open>uploadSketch\<close> never propagate an exception when the callback
  does not throw. Here the callback never throws and the device answers the sync; the
  next \<^verbatim>\<open>reader.read()\<close> rejects with a value that does not convert to a string (a
  symbol, an object without \<^verbatim>\<open>toString\<close>). The \<^verbatim>\<open>catch\<close> evaluates
  \<^verbatim>\<open>`Upload failed: ${error}`\<close> before it calls the callback; the conversion throws
  a \<^verbatim>\<open>TypeError\<close>, and after \<^verbatim>\<open>cleanup\<close> the call of \<^verbatim>\<open>uploadSketch\<close> throws it:
  it returns neither true nor false. The callback has seen the snapshots of the
  connection and of the sync, and no snapshot of stage \<open>Error\<close>.
\<close>

theorem uploadSketch_throws_conversion_error:
  "onProgress (plainOptions []) = Some (\<lambda>_. False)
   \<and> (case uploadSketch goodPort (plainOptions [])
        ((freshRun (freshTransport [okReply, Rejects]))\<lparr>thrown_converts := False\<rparr>) of
        (r, s) \<Rightarrow>
          r = Throws NotConvertible
          \<and> map stage (progress_log s) = [Connecting, Syncing]
          \<and> sent (tr s) = [[0x30, 0x20], [0x50, 0x20]]
          \<and> cancel_calls (tr s) = 1 \<and> close_calls (tr s) = 1)"
  by (simp add: run_defs freshRun_def freshTransport_def goodPort_def plainOptions_def
      okReply_def)


section \<open>The frames of a hex text\<close>

text \<open>
  The frames that one line of the hex text calls for, read from that line alone: for a
  line of at least 11 characters whose type field reads 0 and whose count field reads a
  positive number, the load-address frame of its own address field and the program-page
  frame of its own data; for any other line, none.
\<close>

definition lineFrames :: "string \<Rightarrow> byte list list" where
  "lineFrames line =
     (if 11 \<le> length line \<and> isDataRecord line
      then [loadAddressBytes (recordAddressOf line), progPageBytes (dataOf line)]
      else [])"

lemma delay_tr: "tr (delay ms s) = tr s"
  by (simp add: delay_def)

lemma onTransport_tr: "tr (snd (onTransport f s)) = snd (f (tr s))"
  by (cases "f (tr s)") (simp add: onTransport_def)

lemma onTransport_fst: "fst (onTransport f s) = fst (f (tr s))"
  by (cases "f (tr s)") (simp add: onTransport_def)

lemma writePage_sent_prefix:
  "\<exists>k. sent (snd (writePage address data t))
        = sent t @ take k [loadAddressBytes address, progPageBytes data]"
proof -
  obtain r t' where w: "writePage address data t = (r, t')" by (cases "writePage address data t")
  from writePage_sent [OF w] consider "sent t' = sent t"
    | "sent t' = sent t @ [loadAddressBytes address]"
    | "sent t' = sent t @ [loadAddressBytes address, progPageBytes data]"
    by blast
  then show ?thesis
  proof cases
    case 1
    with w show ?thesis by (intro exI [of _ 0]) simp
  next
    case 2
    with w show ?thesis by (intro exI [of _ 1]) simp
  next
    case 3
    with w show ?thesis by (intro exI [of _ 2]) simp
  qed
qed

lemma writePage_sent_Returns:
  assumes "fst (writePage address data t) = Returns ()"
  shows "sent (snd (writePage address data t))
        = sent t @ [loadAddressBytes address, progPageBytes data]"
proof -
  obtain r t' where w: "writePage address data t = (r, t')" by (cases "writePage address data t")
  with assms have "r = Returns ()" by simp
  with writePage_sent [OF w] w show ?thesis by auto
qed

lemma uploadLoop_sent:
  "(\<exists>k. sent (tr (snd (uploadLoop options n i lines s)))
          = sent (tr s) @ take k (concat (map lineFrames lines)))
   \<and> (fst (uploadLoop options n i lines s) = Returns () \<longrightarrow>
        sent (tr (snd (uploadLoop options n i lines s)))
          = sent (tr s) @ concat (map lineFrames lines))"
proof (induction lines arbitrary: i s)
  case Nil
  show ?case by simp
next
  case (Cons line rest)
  let ?p = "\<lparr>stage = Uploading, progress = Interpolated i n, message = UploadingPercent\<rparr>"
  obtain r1 s1 where n1: "notify options ?p s = (r1, s1)" by (cases "notify options ?p s")
  with notify_tr [of options ?p s] have t1: "tr s1 = tr s" by simp
  show ?case
  proof (cases "r1 = Returns ()")
    case False
    with n1 t1 show ?thesis
      by (cases r1) (auto intro: exI [of _ 0])
  next
    case True
    show ?thesis
    proof (cases "11 \<le> length line \<and> isDataRecord line")
      case False
      then have lf: "lineFrames line = []" by (simp add: lineFrames_def)
      from False n1 True
      have "uploadLoop options n i (line # rest) s = uploadLoop options n (i + 1) rest s1
          \<or> uploadLoop options n i (line # rest) s = uploadLoop options n (i + 1) rest (delay 10 s1)"
        by auto
      then show ?thesis
      proof
        assume e: "uploadLoop options n i (line # rest) s = uploadLoop options n (i + 1) rest s1"
        from Cons.IH [of "i + 1" s1] t1 show ?thesis unfolding e by (simp add: lf)
      next
        assume e: "uploadLoop options n i (line # rest) s = uploadLoop options n (i + 1) rest (delay 10 s1)"
        from Cons.IH [of "i + 1" "delay 10 s1"] t1 show ?thesis unfolding e by (simp add: lf delay_tr)
      qed
    next
      case data: True
      then have lf: "lineFrames line = [loadAddressBytes (recordAddressOf line), progPageBytes (dataOf line)]"
        by (simp add: lineFrames_def)
      let ?w = "writePage (recordAddressOf line) (dataOf line)"
      obtain r2 s2 where w: "onTransport ?w s1 = (r2, s2)" by (cases "onTransport ?w s1")
      from onTransport_tr [of ?w s1] onTransport_fst [of ?w s1] w t1
      have t2: "tr s2 = snd (?w (tr s))" and r2: "r2 = fst (?w (tr s))" by simp_all
      show ?thesis
      proof (cases "r2 = Returns ()")
        case False
        with n1 True data w have e: "uploadLoop options n i (line # rest) s = (r2, s2)"
          by (cases r2) auto
        from writePage_sent_prefix [of "recordAddressOf line" "dataOf line" "tr s"] t2
        obtain k where k: "sent (tr s2) = sent (tr s) @ take k (lineFrames line)"
          unfolding lf by auto
        have "take k (lineFrames line) = take (min k 2) (concat (map lineFrames (line # rest)))"
          by (simp add: lf min_def) (cases k; simp; cases "k - 1"; simp)
        with k e False show ?thesis by (intro conjI) (auto intro: exI [of _ "min k 2"])
      next
        case ok: True
        with n1 True data w
        have e: "uploadLoop options n i (line # rest) s = uploadLoop options n (i + 1) rest (delay 10 s2)"
          by auto
        from writePage_sent_Returns [of "recordAddressOf line" "dataOf line" "tr s"] r2 ok t2
        have s2: "sent (tr s2) = sent (tr s) @ lineFrames line" unfolding lf by simp
        note ih = Cons.IH [of "i + 1" "delay 10 s2", unfolded delay_tr]
        from ih obtain k where k: "sent (tr (snd (uploadLoop options n (i + 1) rest (delay 10 s2))))
            = sent (tr s2) @ take k (concat (map lineFrames rest))"
          by blast
        from ih have f: "fst (uploadLoop options n (i + 1) rest (delay 10 s2)) = Returns () \<longrightarrow>
            sent (tr (snd (uploadLoop options n (i + 1) rest (delay 10 s2))))
            = sent (tr s2) @ concat (map lineFrames rest)"
          by blast
        have "sent (tr (snd (uploadLoop options n i (line # rest) s)))
            = sent (tr s) @ take (2 + k) (concat (map lineFrames (line # rest)))"
          unfolding e k s2 by (simp add: lf)
        moreover from f have "fst (uploadLoop options n i (line # rest) s) = Returns () \<longrightarrow>
            sent (tr (snd (uploadLoop options n i (line # rest) s)))
            = sent (tr s) @ concat (map lineFrames (line # rest))"
          unfolding e s2 by simp
        ultimately show ?thesis by blast
      qed
    qed
  qed
qed

lemma uploadHexData_sent:
  "(\<exists>k. sent (tr (snd (uploadHexData text options s)))
          = sent (tr s) @ take k (concat (map lineFrames (hexLines text))))
   \<and> (fst (uploadHexData text options s) = Returns () \<longrightarrow>
        sent (tr (snd (uploadHexData text options s)))
          = sent (tr s) @ concat (map lineFrames (hexLines text)))"
proof -
  let ?p = "\<lparr>stage = Uploading, progress = Exact 30, message = Literal ''Uploading sketch...''\<rparr>"
  obtain r1 s1 where n1: "notify options ?p s = (r1, s1)" by (cases "notify options ?p s")
  with notify_tr [of options ?p s] have t1: "tr s1 = tr s" by simp
  show ?thesis
  proof (cases "r1 = Returns ()")
    case False
    with n1 t1 show ?thesis
      by (cases r1) (auto simp: uploadHexData_def andThen_def intro: exI [of _ 0])
  next
    case True
    with n1 have e: "uploadHexData text options s
        = uploadLoop options (length (hexLines text)) 0 (hexLines text) s1"
      by (simp add: uploadHexData_def andThen_def)
    from uploadLoop_sent [of options "length (hexLines text)" 0 "hexLines text" s1] t1
    show ?thesis unfolding e by simp
  qed
qed


lemma hexDigit_less: "hexDigit c = Some d \<Longrightarrow> d < 16"
  by (auto simp: hexDigit_def Let_def split: if_splits)

lemma digitPrefix_length: "length (digitPrefix s) \<le> length s"
  by (induction s) (auto split: option.splits)

lemma digitPrefix_digits: "d \<in> set (digitPrefix s) \<Longrightarrow> d < 16"
  by (induction s) (auto split: option.splits dest: hexDigit_less [OF sym])

lemma foldl_digits_bound:
  "(\<And>d. d \<in> set ds \<Longrightarrow> d < 16) \<Longrightarrow>
   foldl (\<lambda>acc d. acc * 16 + d) (v :: nat) ds < (v + 1) * 16 ^ length ds"
proof (induction ds arbitrary: v)
  case Nil
  show ?case by simp
next
  case (Cons d ds)
  have "d < 16" using Cons.prems by simp
  have "foldl (\<lambda>acc d. acc * 16 + d) (v * 16 + d) ds < (v * 16 + d + 1) * 16 ^ length ds"
    using Cons.prems by (intro Cons.IH) simp
  also have "\<dots> \<le> (v * 16 + 16) * 16 ^ length ds"
    using \<open>d < 16\<close> by (intro mult_right_mono) simp_all
  also have "\<dots> = (v + 1) * 16 ^ length (d # ds)" by (simp add: algebra_simps)
  finally show ?case by simp
qed

lemma digitsValue_bound: "digitsValue (digitPrefix s) < 16 ^ length s"
proof -
  have "digitsValue (digitPrefix s) < (0 + 1) * 16 ^ length (digitPrefix s)"
    unfolding digitsValue_def by (rule foldl_digits_bound) (rule digitPrefix_digits)
  also have "\<dots> \<le> 16 ^ length s"
    using digitPrefix_length [of s] by (simp add: power_increasing)
  finally show ?thesis .
qed

lemma stripPrefix_length: "length (stripPrefix s) \<le> length s"
  by (auto simp: stripPrefix_def split: list.splits)

lemma stripSign_length: "length (snd (stripSign s)) \<le> length s"
  by (auto simp: stripSign_def split: list.splits)

lemma parseInt16_bound:
  assumes "parseInt16 s = Some a"
  shows "a < 16 ^ length s"
proof -
  obtain neg s1 where ss: "stripSign (dropWhile isWhiteSpace s) = (neg, s1)"
    by (cases "stripSign (dropWhile isWhiteSpace s)")
  let ?v = "digitsValue (digitPrefix (stripPrefix s1))"
  from assms ss have "a = (if neg then - int ?v else int ?v)"
    by (auto simp: parseInt16_def Let_def split: if_splits)
  then have "a \<le> int ?v" by simp
  also have "?v < 16 ^ length (stripPrefix s1)" by (rule digitsValue_bound)
  then have "int ?v < 16 ^ length (stripPrefix s1)"
    by (metis of_nat_less_iff of_nat_numeral of_nat_power)
  also have "length (stripPrefix s1) \<le> length s"
    using stripPrefix_length [of s1] stripSign_length [of "dropWhile isWhiteSpace s"] ss
      length_dropWhile_le [of isWhiteSpace s]
    by simp
  then have "(16 :: int) ^ length (stripPrefix s1) \<le> 16 ^ length s"
    by (simp add: power_increasing)
  finally show ?thesis .
qed

lemma recordAddressOf_bound:
  assumes "recordAddressOf line = Some a"
  shows "a < 65536"
proof -
  have "a < 16 ^ length (substr line 3 4)"
    using assms unfolding recordAddressOf_def by (rule parseInt16_bound)
  also have "(16 :: int) ^ length (substr line 3 4) \<le> 16 ^ 4"
    by (intro power_increasing) (simp_all add: substr_def)
  finally show ?thesis by simp
qed

text \<open>
  C6. Whatever the transport does, the frames sent by \<^verbatim>\<open>uploadHexData\<close> are an
  initial part of the frames of the lines, taken line by line in file order, and all of
  them when it returns normally. The frames of a line are a function of that line: the
  address bytes are the low and high byte of its own four-character address field, which
  reads a number below 65536, and a line of type 0x04 has no frames. No earlier line
  enters the frames of a later one.
\<close>

theorem frames_follow_own_line:
  "(\<exists>k. sent (tr (snd (uploadHexData text options s)))
          = sent (tr s) @ take k (concat (map lineFrames (hexLines text))))
   \<and> (fst (uploadHexData text options s) = Returns () \<longrightarrow>
        sent (tr (snd (uploadHexData text options s)))
          = sent (tr s) @ concat (map lineFrames (hexLines text)))
   \<and> (recordTypeOf line = Some 4 \<longrightarrow> lineFrames line = [])
   \<and> (lineFrames line \<noteq> [] \<longrightarrow>
        lineFrames line ! 0 =
          [0x55, word_of_int (lowByte (parseInt16 (substr line 3 4))),
           word_of_int (highByte (parseInt16 (substr line 3 4))), 0x20])
   \<and> (recordAddressOf line = Some a \<longrightarrow> a < 65536)"
  using uploadHexData_sent [of "text" options s] recordAddressOf_bound [of line a]
  by (auto simp: lineFrames_def isDataRecord_def loadAddressBytes_def recordAddressOf_def)

text \<open>
  An extended-linear-address record that selects the second 64 KiB, followed by a data
  record at offset 0: the address sent is 0, not 0x10000.
\<close>

definition extendedAddressHex :: string where
  "extendedAddressHex = '':020000040001F9'' @ [CHR 0x0A] @ '':02000000A1B2AB''"

lemma extendedAddressHex_lines:
  "hexLines extendedAddressHex = ['':020000040001F9'', '':02000000A1B2AB'']"
  by code_simp

lemma extendedAddressHex_data:
  "recordTypeOf '':020000040001F9'' = Some 4"
  "\<not> isDataRecord '':020000040001F9''"
  "isDataRecord '':02000000A1B2AB''"
  "recordAddressOf '':02000000A1B2AB'' = Some 0"
  "dataOf '':02000000A1B2AB'' = [Some 0xA1, Some 0xB2]"
  by code_simp+

theorem frames_follow_own_line_witness:
  "fst (uploadHexData extendedAddressHex (plainOptions extendedAddressHex)
         (freshRun ((freshTransport [okReply, okReply])\<lparr>reader := True, writer := True\<rparr>)))
     = Returns ()
   \<and> sent (tr (snd (uploadHexData extendedAddressHex (plainOptions extendedAddressHex)
         (freshRun ((freshTransport [okReply, okReply])\<lparr>reader := True, writer := True\<rparr>)))))
     = [[0x55, 0, 0, 0x20], [0x64, 0, 2, 0x46, 0xA1, 0xB2, 0x20]]
   \<and> sent (tr (snd (uploadHexData extendedAddressHex (plainOptions extendedAddressHex)
         (freshRun ((freshTransport [okReply, okReply])\<lparr>reader := True, writer := True\<rparr>)))))
     = concat (map lineFrames ['':020000040001F9'', '':02000000A1B2AB''])
   \<and> lineFrames '':020000040001F9'' = []"
proof -
  let ?s = "freshRun ((freshTransport [okReply, okReply])\<lparr>reader := True, writer := True\<rparr>)"
  let ?o = "plainOptions extendedAddressHex"
  have r: "fst (uploadHexData extendedAddressHex ?o ?s) = Returns ()"
    "sent (tr (snd (uploadHexData extendedAddressHex ?o ?s)))
       = [[0x55, 0, 0, 0x20], [0x64, 0, 2, 0x46, 0xA1, 0xB2, 0x20]]"
    by (simp_all add: run_defs freshRun_def freshTransport_def plainOptions_def okReply_def
        extendedAddressHex_lines extendedAddressHex_data)
  have e: "sent (tr ?s) = []"
    by (simp add: freshRun_def freshTransport_def)
  note t = frames_follow_own_line [of extendedAddressHex ?o ?s "'':020000040001F9''"]
  from t r(1) e have "sent (tr (snd (uploadHexData extendedAddressHex ?o ?s)))
      = concat (map lineFrames ['':020000040001F9'', '':02000000A1B2AB''])"
    by (simp add: extendedAddressHex_lines)
  moreover from t extendedAddressHex_data(1) have "lineFrames '':020000040001F9'' = []"
    by blast
  ultimately show ?thesis using r by simp
qed


section \<open>Lines that are skipped\<close>

text \<open>
  The loop over the lines as the transport sees it: what remains of \<^verbatim>\<open>uploadLoop\<close>
  when the progress snapshots and the delays are left out.
\<close>

fun framesLoop :: "string list \<Rightarrow> transport \<Rightarrow> unit outcome \<times> transport" where
  "framesLoop [] t = (Returns (), t)"
| "framesLoop (line # rest) t =
     (if 11 \<le> length line \<and> isDataRecord line then
        (case writePage (recordAddressOf line) (dataOf line) t of
           (Returns _, t') \<Rightarrow> framesLoop rest t'
         | (Throws e, t') \<Rightarrow> (Throws e, t')
         | (Blocks, t') \<Rightarrow> (Blocks, t'))
      else framesLoop rest t)"

lemma framesLoop_skip_line:
  "\<not> (11 \<le> length line \<and> isDataRecord line) \<Longrightarrow>
   framesLoop (line # rest) t = framesLoop rest t"
  by auto

lemma framesLoop_data_line:
  "11 \<le> length line \<and> isDataRecord line \<Longrightarrow>
   framesLoop (line # rest) t =
     (case writePage (recordAddressOf line) (dataOf line) t of
        (Returns _, t') \<Rightarrow> framesLoop rest t'
      | (Throws e, t') \<Rightarrow> (Throws e, t')
      | (Blocks, t') \<Rightarrow> (Blocks, t'))"
  by simp

declare framesLoop.simps(2) [simp del]

lemma notify_quiet:
  assumes "callbackNeverThrows options"
  shows "\<exists>s1. notify options p s = (Returns (), s1) \<and> tr s1 = tr s"
proof -
  obtain r1 s1 where n: "notify options p s = (r1, s1)" by (cases "notify options p s")
  with notify_never_throws [OF assms, of p s] notify_tr [of options p s] show ?thesis by simp
qed

lemma uploadLoop_framesLoop:
  assumes "callbackNeverThrows options"
  shows "fst (uploadLoop options n i lines s) = fst (framesLoop lines (tr s))
       \<and> tr (snd (uploadLoop options n i lines s)) = snd (framesLoop lines (tr s))"
proof (induction lines arbitrary: i s)
  case Nil
  show ?case by simp
next
  case (Cons line rest)
  let ?p = "\<lparr>stage = Uploading, progress = Interpolated i n, message = UploadingPercent\<rparr>"
  from notify_quiet [OF assms, of ?p s]
  obtain s1 where n1: "notify options ?p s = (Returns (), s1)" and t1: "tr s1 = tr s" by blast
  show ?case
  proof (cases "11 \<le> length line \<and> isDataRecord line")
    case False
    with n1 have "uploadLoop options n i (line # rest) s = uploadLoop options n (i + 1) rest s1
        \<or> uploadLoop options n i (line # rest) s = uploadLoop options n (i + 1) rest (delay 10 s1)"
      by auto
    then show ?thesis
    proof
      assume e: "uploadLoop options n i (line # rest) s = uploadLoop options n (i + 1) rest s1"
      from Cons.IH [of "i + 1" s1] t1 show ?thesis
        unfolding e framesLoop_skip_line [OF False] by simp
    next
      assume e: "uploadLoop options n i (line # rest) s = uploadLoop options n (i + 1) rest (delay 10 s1)"
      from Cons.IH [of "i + 1" "delay 10 s1"] t1 show ?thesis
        unfolding e framesLoop_skip_line [OF False] by (simp add: delay_tr)
    qed
  next
    case True
    let ?w = "writePage (recordAddressOf line) (dataOf line)"
    obtain r2 t2 where w: "?w (tr s) = (r2, t2)" by (cases "?w (tr s)")
    with t1 have o: "onTransport ?w s1 = (r2, s1\<lparr>tr := t2\<rparr>)" by (simp add: onTransport_def)
    show ?thesis
    proof (cases r2)
      case (Returns x)
      with n1 True o
      have e: "uploadLoop options n i (line # rest) s
          = uploadLoop options n (i + 1) rest (delay 10 (s1\<lparr>tr := t2\<rparr>))"
        by simp
      from Cons.IH [of "i + 1" "delay 10 (s1\<lparr>tr := t2\<rparr>)"] w Returns
      show ?thesis unfolding e framesLoop_data_line [OF True] by (simp add: delay_tr)
    next
      case (Throws e)
      with n1 True o w show ?thesis unfolding framesLoop_data_line [OF True] by simp
    next
      case Blocks
      with n1 True o w show ?thesis unfolding framesLoop_data_line [OF True] by simp
    qed
  qed
qed

lemma framesLoop_skip:
  assumes "\<not> (11 \<le> length line \<and> isDataRecord line)"
  shows "framesLoop (before @ line # after) t = framesLoop (before @ after) t"
proof (induction before arbitrary: t)
  case Nil
  from assms show ?case by (simp add: framesLoop_skip_line)
next
  case (Cons l ls)
  show ?case
  proof (cases "11 \<le> length l \<and> isDataRecord l")
    case False
    with Cons.IH [of t] show ?thesis by (simp add: framesLoop_skip_line)
  next
    case True
    obtain r2 t2 where w: "writePage (recordAddressOf l) (dataOf l) t = (r2, t2)"
      by (cases "writePage (recordAddressOf l) (dataOf l) t")
    with True Cons.IH [of t2] show ?thesis by (cases r2) (simp_all add: framesLoop_data_line)
  qed
qed

text \<open>
  C9. Take a line whose type field does not read 0, or whose count field does not read
  a positive number (a count of zero in particular), and a callback that never throws.
  The loop over that line alone returns normally and leaves the transport as it was:
  nothing is sent, nothing is read. Inside any hex text, the outcome of the loop and the
  whole state of the transport after it are the same as for the text without that line.
\<close>

theorem skipped_record_is_silent:
  assumes "callbackNeverThrows options"
    and "recordTypeOf line \<noteq> Some 0 \<or> \<not> positive (dataLengthOf line)"
  shows "fst (uploadLoop options n i [line] s) = Returns ()
       \<and> tr (snd (uploadLoop options n i [line] s)) = tr s
       \<and> fst (uploadLoop options n i (before @ line # after) s)
           = fst (uploadLoop options m j (before @ after) s)
       \<and> tr (snd (uploadLoop options n i (before @ line # after) s))
           = tr (snd (uploadLoop options m j (before @ after) s))"
proof -
  from assms(2) have sk: "\<not> (11 \<le> length line \<and> isDataRecord line)"
    by (auto simp: isDataRecord_def)
  note a = uploadLoop_framesLoop [OF assms(1), of n i "[line]" s]
  note b = uploadLoop_framesLoop [OF assms(1), of n i "before @ line # after" s]
  note c = uploadLoop_framesLoop [OF assms(1), of m j "before @ after" s]
  from sk have d: "framesLoop [line] (tr s) = (Returns (), tr s)"
    by (simp add: framesLoop_skip_line)
  note e = framesLoop_skip [OF sk, of before after "tr s"]
  from a b c d e show ?thesis by simp
qed

theorem skipped_record_is_silent_witness:
  "fst (uploadLoop (plainOptions []) 1 0 ['':0000000000'']
         (freshRun ((freshTransport [])\<lparr>reader := True, writer := True\<rparr>))) = Returns ()
   \<and> tr (snd (uploadLoop (plainOptions []) 1 0 ['':0000000000'']
         (freshRun ((freshTransport [])\<lparr>reader := True, writer := True\<rparr>))))
       = (freshTransport [])\<lparr>reader := True, writer := True\<rparr>
   \<and> fst (uploadLoop (plainOptions []) 1 0 ['':00000001FF'']
         (freshRun ((freshTransport [])\<lparr>reader := True, writer := True\<rparr>))) = Returns ()
   \<and> tr (snd (uploadLoop (plainOptions []) 1 0 ['':00000001FF'']
         (freshRun ((freshTransport [])\<lparr>reader := True, writer := True\<rparr>))))
       = (freshTransport [])\<lparr>reader := True, writer := True\<rparr>"
proof -
  let ?s = "freshRun ((freshTransport [])\<lparr>reader := True, writer := True\<rparr>)"
  have c: "callbackNeverThrows (plainOptions [])"
    by (simp add: callbackNeverThrows_def plainOptions_def)
  have z: "recordTypeOf '':0000000000'' \<noteq> Some 0 \<or> \<not> positive (dataLengthOf '':0000000000'')"
    by code_simp
  have f: "recordTypeOf '':00000001FF'' \<noteq> Some 0 \<or> \<not> positive (dataLengthOf '':00000001FF'')"
    by code_simp
  have t: "tr ?s = (freshTransport [])\<lparr>reader := True, writer := True\<rparr>"
    by (simp add: freshRun_def)
  from skipped_record_is_silent [OF c z, of 1 0 ?s] skipped_record_is_silent [OF c f, of 1 0 ?s] t
  show ?thesis by simp
qed


section \<open>Hex texts that are not well formed\<close>

lemma readResponse_okReply:
  assumes "reader t" "reads t = okReply # rest"
  shows "readResponse 2 t = (Returns [0x14, 0x10], t\<lparr>reads := rest\<rparr>)"
proof -
  have "readLoop 2 [] 0 (Chunk 0 [0x14, 0x10] # rest) = readLoop 2 [0x14, 0x10] 0 rest"
    by (simp add: readLoop_Chunk)
  also have "\<dots> = (Returns [0x14, 0x10], rest)"
    by (simp add: readLoop_stop finishRead_def)
  finally show ?thesis using assms by (simp add: readResponse_def okReply_def)
qed

lemma inSyncOk_reply: "inSyncOk [0x14, 0x10]"
  by (simp add: inSyncOk_def STK_INSYNC_def STK_OK_def)

lemma exchange_okReply:
  assumes "reader t" "writer t" "\<not> write_rejects t (length (sent t))" "reads t = okReply # rest"
  shows "exchange c e t = (Returns (), t\<lparr>sent := sent t @ [map toUint8 c], reads := rest\<rparr>)"
proof -
  let ?t1 = "t\<lparr>sent := sent t @ [map toUint8 c]\<rparr>"
  have "readResponse 2 ?t1 = (Returns [0x14, 0x10], ?t1\<lparr>reads := rest\<rparr>)"
    using assms by (intro readResponse_okReply) simp_all
  with assms show ?thesis
    by (simp add: exchange_def sendCommand_def inSyncOk_reply)
qed

lemma writePage_okReply:
  assumes "reader t" "writer t" "\<forall>k. \<not> write_rejects t k" "reads t = okReply # okReply # rest"
  shows "writePage address data t =
     (Returns (), t\<lparr>sent := sent t @ [loadAddressBytes address, progPageBytes data], reads := rest\<rparr>)"
proof -
  let ?t1 = "t\<lparr>sent := sent t @ [loadAddressBytes address], reads := okReply # rest\<rparr>"
  have 1: "exchange (loadAddressCommand address) (SetAddressFailed address) t = (Returns (), ?t1)"
    using assms by (simp add: exchange_okReply loadAddressCommand_bytes)
  have 2: "exchange (progPageCommand data) (WritePageFailed address) ?t1
      = (Returns (), ?t1\<lparr>sent := sent ?t1 @ [progPageBytes data], reads := rest\<rparr>)"
    using assms by (subst exchange_okReply [where rest = rest]) (simp_all add: progPageCommand_bytes)
  show ?thesis by (simp add: writePage_def 1 2)
qed

text \<open>A device that answers every command with in-sync/OK, \<open>m\<close> times.\<close>

definition cooperative :: "nat \<Rightarrow> transport \<Rightarrow> bool" where
  "cooperative m t =
     (reader t \<and> writer t \<and> (\<forall>k. \<not> write_rejects t k) \<and> reads t = replicate m okReply)"

lemma framesLoop_cooperative:
  assumes "cooperative m t" "length (concat (map lineFrames lines)) \<le> m"
  shows "fst (framesLoop lines t) = Returns ()
       \<and> sent (snd (framesLoop lines t)) = sent t @ concat (map lineFrames lines)"
  using assms
proof (induction lines arbitrary: m t)
  case Nil
  show ?case by simp
next
  case (Cons line rest)
  show ?case
  proof (cases "11 \<le> length line \<and> isDataRecord line")
    case False
    then have "lineFrames line = []" by (simp add: lineFrames_def)
    with Cons.IH [of m t] Cons.prems show ?thesis
      by (simp add: framesLoop_skip_line [OF False])
  next
    case True
    then have lf: "lineFrames line = [loadAddressBytes (recordAddressOf line), progPageBytes (dataOf line)]"
      by (simp add: lineFrames_def)
    with Cons.prems(2) obtain m' where m: "m = Suc (Suc m')"
      by (cases m; simp; cases "m - 1"; simp)
    let ?t' = "t\<lparr>sent := sent t @ lineFrames line, reads := replicate m' okReply\<rparr>"
    from Cons.prems(1) m
    have w: "writePage (recordAddressOf line) (dataOf line) t = (Returns (), ?t')"
      unfolding lf by (intro writePage_okReply) (simp_all add: cooperative_def)
    from Cons.prems(1) have c: "cooperative m' ?t'" by (simp add: cooperative_def)
    from Cons.prems(2) m lf have l: "length (concat (map lineFrames rest)) \<le> m'" by simp
    from Cons.IH [OF c l] w show ?thesis
      by (simp add: framesLoop_data_line [OF True])
  qed
qed

lemma dataOf_length:
  assumes "isDataRecord line"
  shows "\<exists>n. dataLengthOf line = Some n \<and> 0 < n \<and> length (dataOf line) = nat n"
  using assms by (auto simp: isDataRecord_def positive_def dataOf_def split: option.splits)

text \<open>
  C3, as amended. The upload has no check of the hex text. On a device that answers
  every command with in-sync/OK, with a callback that never throws, \<^verbatim>\<open>uploadHexData\<close>
  returns normally for every text and sends the frames of all its lines. A line that is
  written is written with as many payload bytes as its count field reads, whatever the
  line holds at their places; a byte field that does not parse is sent as 0.
\<close>

theorem hex_text_never_rejected:
  assumes "callbackNeverThrows options" "cooperative m (tr s)"
    and "length (concat (map lineFrames (hexLines text))) \<le> m"
  shows "fst (uploadHexData text options s) = Returns ()
       \<and> sent (tr (snd (uploadHexData text options s)))
           = sent (tr s) @ concat (map lineFrames (hexLines text))
       \<and> (isDataRecord line \<longrightarrow>
            (\<exists>n. dataLengthOf line = Some n \<and> 0 < n \<and> length (dataOf line) = nat n))
       \<and> (parseInt16 field = None \<longrightarrow> toUint8 (parseInt16 field) = 0)"
proof -
  let ?p = "\<lparr>stage = Uploading, progress = Exact 30, message = Literal ''Uploading sketch...''\<rparr>"
  from notify_quiet [OF assms(1), of ?p s]
  obtain s1 where n1: "notify options ?p s = (Returns (), s1)" and t1: "tr s1 = tr s" by blast
  then have e: "uploadHexData text options s
      = uploadLoop options (length (hexLines text)) 0 (hexLines text) s1"
    by (simp add: uploadHexData_def andThen_def)
  note u = uploadLoop_framesLoop [OF assms(1), of "length (hexLines text)" 0 "hexLines text" s1]
  note f = framesLoop_cooperative [OF assms(2,3)]
  from u f t1 have "fst (uploadHexData text options s) = Returns ()"
    and "sent (tr (snd (uploadHexData text options s)))
           = sent (tr s) @ concat (map lineFrames (hexLines text))"
    unfolding e by simp_all
  then show ?thesis
    using dataOf_length [of line] by (simp add: toUint8_def)
qed

text \<open>
  A line whose count field declares four bytes, with three byte fields after the type
  field, the second of which is not hexadecimal.
\<close>

definition malformedHex :: string where
  "malformedHex = '':04000000A1ZZ5C''"

lemma malformedHex_lines: "hexLines malformedHex = ['':04000000A1ZZ5C'']"
  by code_simp

lemma malformedHex_data:
  "isDataRecord '':04000000A1ZZ5C''"
  "recordAddressOf '':04000000A1ZZ5C'' = Some 0"
  "dataOf '':04000000A1ZZ5C'' = [Some 0xA1, None, Some 0x5C, None]"
  by code_simp+

text \<open>
  C3 as stated fails: this line is not rejected. The upload succeeds and the page write
  carries four payload bytes, two of them made up.
\<close>

theorem malformed_record_is_uploaded:
  "fst (uploadSketch goodPort (plainOptions malformedHex)
         (freshRun (freshTransport [okReply, okReply, okReply, okReply, okReply]))) = Returns True
   \<and> sent (tr (snd (uploadSketch goodPort (plainOptions malformedHex)
         (freshRun (freshTransport [okReply, okReply, okReply, okReply, okReply])))))
     = [[0x30, 0x20], [0x50, 0x20], [0x55, 0, 0, 0x20],
        [0x64, 0, 4, 0x46, 0xA1, 0, 0x5C, 0, 0x20], [0x51, 0x20]]"
  by (simp add: run_defs freshRun_def freshTransport_def goodPort_def plainOptions_def okReply_def
      malformedHex_lines malformedHex_data)

theorem hex_text_never_rejected_witness:
  "fst (uploadHexData malformedHex (plainOptions malformedHex)
         (freshRun ((freshTransport (replicate 2 okReply))\<lparr>reader := True, writer := True\<rparr>)))
     = Returns ()
   \<and> sent (tr (snd (uploadHexData malformedHex (plainOptions malformedHex)
         (freshRun ((freshTransport (replicate 2 okReply))\<lparr>reader := True, writer := True\<rparr>)))))
     = [[0x55, 0, 0, 0x20], [0x64, 0, 4, 0x46, 0xA1, 0, 0x5C, 0, 0x20]]"
proof -
  let ?s = "freshRun ((freshTransport (replicate 2 okReply))\<lparr>reader := True, writer := True\<rparr>)"
  let ?o = "plainOptions malformedHex"
  have c: "callbackNeverThrows ?o"
    by (simp add: callbackNeverThrows_def plainOptions_def)
  have d: "cooperative 2 (tr ?s)"
    by (simp add: cooperative_def freshRun_def freshTransport_def)
  have f: "concat (map lineFrames (hexLines malformedHex))
      = [[0x55, 0, 0, 0x20], [0x64, 0, 4, 0x46, 0xA1, 0, 0x5C, 0, 0x20]]"
    by (simp add: malformedHex_lines malformedHex_data lineFrames_def loadAddressBytes_def
        progPageBytes_def lowByte_def highByte_def toUint8_def)
  then have l: "length (concat (map lineFrames (hexLines malformedHex))) \<le> 2" by simp
  have e: "sent (tr ?s) = []"
    by (simp add: freshRun_def freshTransport_def)
  from hex_text_never_rejected [OF c d l] f e show ?thesis by simp
qed


section \<open>The checksum\<close>

text \<open>
  The checksum of a record stands after its payload, that is from character
  \<open>9 + 2 * count\<close> on. Two lines differ at most in their checksums when they have the
  same length and agree before that place.
\<close>

definition payloadEnd :: "string \<Rightarrow> nat" where
  "payloadEnd line = 9 + 2 * (case dataLengthOf line of None \<Rightarrow> 0 | Some n \<Rightarrow> nat n)"

definition sameButChecksum :: "string \<Rightarrow> string \<Rightarrow> bool" where
  "sameButChecksum a b = (length a = length b \<and> take (payloadEnd a) a = take (payloadEnd a) b)"

lemma substr_take:
  assumes "take m a = take m b" "start + len \<le> m"
  shows "substr a start len = substr b start len"
proof -
  have "take (start + len) (take m a) = take (start + len) (take m b)"
    using assms(1) by simp
  with assms(2) have "take (start + len) a = take (start + len) b"
    by (simp add: min_def)
  then show ?thesis
    by (simp add: substr_def take_drop add.commute)
qed

lemma sameButChecksum_fields:
  assumes "sameButChecksum a b"
  shows "dataLengthOf a = dataLengthOf b" "recordTypeOf a = recordTypeOf b"
    "recordAddressOf a = recordAddressOf b" "length a = length b"
proof -
  from assms have t: "take (payloadEnd a) a = take (payloadEnd a) b" and "length a = length b"
    by (simp_all add: sameButChecksum_def)
  then show "length a = length b" by simp
  have "9 \<le> payloadEnd a" by (simp add: payloadEnd_def)
  then show "dataLengthOf a = dataLengthOf b" "recordTypeOf a = recordTypeOf b"
    "recordAddressOf a = recordAddressOf b"
    unfolding dataLengthOf_def recordTypeOf_def recordAddressOf_def
    using substr_take [OF t] by simp_all
qed

lemma sameButChecksum_data:
  assumes "sameButChecksum a b"
  shows "dataOf a = dataOf b"
proof (cases "dataLengthOf a")
  case None
  with sameButChecksum_fields(1) [OF assms] show ?thesis by (simp add: dataOf_def)
next
  case (Some n)
  from assms have t: "take (payloadEnd a) a = take (payloadEnd a) b"
    by (simp add: sameButChecksum_def)
  have "substr a (9 + j * 2) 2 = substr b (9 + j * 2) 2" if "j < nat n" for j
    using that Some by (intro substr_take [OF t]) (simp add: payloadEnd_def)
  with Some sameButChecksum_fields(1) [OF assms] show ?thesis
    by (simp add: dataOf_def)
qed

lemma sameButChecksum_isData:
  assumes "sameButChecksum a b"
  shows "isDataRecord a = isDataRecord b"
  using sameButChecksum_fields [OF assms] by (simp add: isDataRecord_def)

lemma startsWithColon_trimTruthy: "startsWithColon line \<Longrightarrow> trimTruthy line"
  by (cases line) (auto simp: startsWithColon_def trimTruthy_def isWhiteSpace_def)

lemma sameButChecksum_kept:
  assumes "sameButChecksum a b"
  shows "(trimTruthy a \<and> startsWithColon a) = (trimTruthy b \<and> startsWithColon b)"
proof -
  from assms have t: "take (payloadEnd a) a = take (payloadEnd a) b" and l: "length a = length b"
    by (simp_all add: sameButChecksum_def)
  have "0 < payloadEnd a" by (simp add: payloadEnd_def)
  with t l have "startsWithColon a = startsWithColon b"
    by (cases a; cases b; cases "payloadEnd a") (simp_all add: startsWithColon_def)
  with startsWithColon_trimTruthy [of a] startsWithColon_trimTruthy [of b] show ?thesis by blast
qed

lemma filter_related:
  assumes "list_all2 R xs ys" "\<And>x y. R x y \<Longrightarrow> P x = P y"
  shows "list_all2 R (filter P xs) (filter P ys)"
  using assms(1)
proof (induction rule: list_all2_induct)
  case Nil
  show ?case by simp
next
  case (Cons x xs y ys)
  with assms(2) [of x y] show ?case by simp
qed

lemma hexLines_related:
  assumes "list_all2 sameButChecksum (split_lines a) (split_lines b)"
  shows "list_all2 sameButChecksum (hexLines a) (hexLines b)"
  unfolding hexLines_def using assms by (rule filter_related) (rule sameButChecksum_kept)

lemma notify_same:
  "onProgress o1 = onProgress o2 \<Longrightarrow> notify o1 p s = notify o2 p s"
  by (simp add: notify_def)

lemma uploadLoop_related:
  assumes "list_all2 sameButChecksum ls1 ls2" "onProgress o1 = onProgress o2"
  shows "uploadLoop o1 n i ls1 s = uploadLoop o2 n i ls2 s"
  using assms(1)
proof (induction arbitrary: i s rule: list_all2_induct)
  case Nil
  show ?case by simp
next
  case (Cons a as b bs)
  note f = sameButChecksum_fields [OF Cons.hyps(1)] sameButChecksum_data [OF Cons.hyps(1)]
    sameButChecksum_isData [OF Cons.hyps(1)]
  show ?case
    by (simp add: f Cons.IH notify_same [OF assms(2)]
        split: prod.splits outcome.splits)
qed

text \<open>
  C8. When the lines of two hex texts differ at most in their checksums, the two
  uploads are the same: the same result, the same frames sent, the same snapshots, the
  same state of the transport at the end, on any port, with any callback and against
  any behaviour of the device.
\<close>

theorem checksum_is_ignored:
  assumes "list_all2 sameButChecksum (split_lines text1) (split_lines text2)"
  shows "uploadSketch port (options\<lparr>hexData := text1\<rparr>) s
       = uploadSketch port (options\<lparr>hexData := text2\<rparr>) s"
proof -
  let ?o1 = "options\<lparr>hexData := text1\<rparr>" and ?o2 = "options\<lparr>hexData := text2\<rparr>"
  have p: "onProgress ?o1 = onProgress ?o2" by simp
  note r = hexLines_related [OF assms]
  have n: "notify ?o1 = notify ?o2"
    by (intro ext notify_same p)
  have u: "uploadLoop ?o1 k i (hexLines text1) = uploadLoop ?o2 k i (hexLines text2)" for k i
    by (intro ext uploadLoop_related r p)
  have h: "uploadHexData text1 ?o1 = uploadHexData text2 ?o2"
    by (intro ext) (simp add: uploadHexData_def n u list_all2_lengthD [OF r])
  have e: "enterProgrammingMode ?o1 = enterProgrammingMode ?o2"
    by (intro ext) (simp add: enterProgrammingMode_def n)
  have v: "verifyUpload text1 ?o1 = verifyUpload text2 ?o2"
    by (intro ext) (simp add: verifyUpload_def n)
  have l: "leaveProgrammingMode ?o1 = leaveProgrammingMode ?o2"
    by (intro ext) (simp add: leaveProgrammingMode_def)
  have "uploadSteps port ?o1 s = uploadSteps port ?o2 s"
    by (simp add: uploadSteps_def h e v l n)
  then show ?thesis
    by (simp add: uploadSketch_def notify_same [OF p] split: prod.splits outcome.splits)
qed

text \<open>The text \<open>oneRecordHex\<close> with both checksums replaced.\<close>

definition oneRecordHexOtherSums :: string where
  "oneRecordHexOtherSums = '':02123400A1B200'' @ [CHR 0x0A] @ '':00000001AA''"

lemma oneRecordHexOtherSums_lines:
  "hexLines oneRecordHexOtherSums = ['':02123400A1B200'', '':00000001AA'']"
  by code_simp

lemma oneRecordHexOtherSums_data:
  "isDataRecord '':02123400A1B200''"
  "recordAddressOf '':02123400A1B200'' = Some 0x1234"
  "dataOf '':02123400A1B200'' = [Some 0xA1, Some 0xB2]"
  "\<not> isDataRecord '':00000001AA''"
  by code_simp+

theorem checksum_is_ignored_witness:
  "uploadSketch goodPort ((plainOptions [])\<lparr>hexData := oneRecordHex\<rparr>)
       (freshRun (freshTransport [okReply, okReply, okReply, okReply, okReply]))
   = uploadSketch goodPort ((plainOptions [])\<lparr>hexData := oneRecordHexOtherSums\<rparr>)
       (freshRun (freshTransport [okReply, okReply, okReply, okReply, okReply]))
   \<and> fst (uploadSketch goodPort ((plainOptions [])\<lparr>hexData := oneRecordHexOtherSums\<rparr>)
       (freshRun (freshTransport [okReply, okReply, okReply, okReply, okReply]))) = Returns True
   \<and> sent (tr (snd (uploadSketch goodPort ((plainOptions [])\<lparr>hexData := oneRecordHex\<rparr>)
       (freshRun (freshTransport [okReply, okReply, okReply, okReply, okReply])))))
     = [[0x30, 0x20], [0x50, 0x20], [0x55, 0x34, 0x12, 0x20],
        [0x64, 0, 2, 0x46, 0xA1, 0xB2, 0x20], [0x51, 0x20]]"
proof -
  let ?s = "freshRun (freshTransport [okReply, okReply, okReply, okReply, okReply])"
  let ?u = "\<lambda>text. uploadSketch goodPort ((plainOptions [])\<lparr>hexData := text\<rparr>) ?s"
  have "list_all2 sameButChecksum (split_lines oneRecordHex) (split_lines oneRecordHexOtherSums)"
    by code_simp
  then have e: "?u oneRecordHex = ?u oneRecordHexOtherSums"
    by (rule checksum_is_ignored)
  have "fst (?u oneRecordHexOtherSums) = Returns True"
    "sent (tr (snd (?u oneRecordHexOtherSums)))
      = [[0x30, 0x20], [0x50, 0x20], [0x55, 0x34, 0x12, 0x20],
         [0x64, 0, 2, 0x46, 0xA1, 0xB2, 0x20], [0x51, 0x20]]"
    by (simp_all add: run_defs freshRun_def freshTransport_def goodPort_def plainOptions_def
        okReply_def oneRecordHexOtherSums_lines oneRecordHexOtherSums_data)
  with e show ?thesis by simp
qed


section \<open>Release of the transport\<close>

text \<open>Only what was sent and what remains to be read differs between \<open>t\<close> and \<open>t'\<close>.\<close>

definition sameHandles :: "transport \<Rightarrow> transport \<Rightarrow> bool" where
  "sameHandles t t' = (t' = t\<lparr>reads := reads t', sent := sent t'\<rparr>)"

lemma sameHandles_refl: "sameHandles t t"
  by (simp add: sameHandles_def)

lemma sameHandles_trans: "sameHandles a b \<Longrightarrow> sameHandles b c \<Longrightarrow> sameHandles a c"
  unfolding sameHandles_def
  by (metis transport.surjective transport.update_convs(3) transport.update_convs(4))

lemma sameHandles_fields:
  assumes "sameHandles t t'"
  shows "reader t' = reader t" "writer t' = writer t" "cancel_rejects t' = cancel_rejects t"
    "close_rejects t' = close_rejects t" "cancel_calls t' = cancel_calls t"
    "close_calls t' = close_calls t"
proof -
  from assms have e: "t' = t\<lparr>reads := reads t', sent := sent t'\<rparr>" by (simp add: sameHandles_def)
  show "reader t' = reader t" by (subst e) simp
  show "writer t' = writer t" by (subst e) simp
  show "cancel_rejects t' = cancel_rejects t" by (subst e) simp
  show "close_rejects t' = close_rejects t" by (subst e) simp
  show "cancel_calls t' = cancel_calls t" by (subst e) simp
  show "close_calls t' = close_calls t" by (subst e) simp
qed

lemma sameHandles_sendCommand: "sameHandles t (snd (sendCommand c t))"
  by (simp add: sameHandles_def sendCommand_def)

lemma sameHandles_readResponse: "sameHandles t (snd (readResponse n t))"
  by (cases "readLoop n [] 0 (reads t)") (simp add: sameHandles_def readResponse_def)

lemma sameHandles_exchange: "sameHandles t (snd (exchange c e t))"
proof -
  obtain r1 t1 where s: "sendCommand c t = (r1, t1)" by (cases "sendCommand c t")
  obtain r2 t2 where r: "readResponse 2 t1 = (r2, t2)" by (cases "readResponse 2 t1")
  from sameHandles_sendCommand [of t c] s have 1: "sameHandles t t1" by simp
  from sameHandles_readResponse [of t1 2] r have 2: "sameHandles t1 t2" by simp
  from s r 1 sameHandles_trans [OF 1 2] show ?thesis
    by (cases r1; cases r2) (simp_all add: exchange_def)
qed

lemma sameHandles_syncAttempt: "sameHandles t (snd (syncAttempt t))"
proof -
  let ?c = "[Some STK_GET_SYNC, Some STK_CRC_EOP]"
  obtain r1 t1 where s: "sendCommand ?c t = (r1, t1)" by (cases "sendCommand ?c t")
  obtain r2 t2 where r: "readResponse 2 t1 = (r2, t2)" by (cases "readResponse 2 t1")
  from sameHandles_sendCommand [of t ?c] s have 1: "sameHandles t t1" by simp
  from sameHandles_readResponse [of t1 2] r have 2: "sameHandles t1 t2" by simp
  from s r 1 sameHandles_trans [OF 1 2] show ?thesis
    by (cases r1; cases r2) (simp_all add: syncAttempt_def)
qed

lemma sameHandles_writePage: "sameHandles t (snd (writePage a d t))"
proof -
  let ?x = "exchange (loadAddressCommand a) (SetAddressFailed a) t"
  obtain r1 t1 where e: "?x = (r1, t1)" by (cases ?x)
  from sameHandles_exchange [of t "loadAddressCommand a" "SetAddressFailed a"] e
  have 1: "sameHandles t t1" by simp
  note 2 = sameHandles_exchange [of t1 "progPageCommand d" "WritePageFailed a"]
  from e 1 sameHandles_trans [OF 1 2] show ?thesis
    by (cases r1) (simp_all add: writePage_def)
qed

text \<open>The same between two states of a run.\<close>

definition keeps :: "run \<Rightarrow> run \<Rightarrow> bool" where
  "keeps s s' = sameHandles (tr s) (tr s')"

lemma keeps_tr: "tr s' = tr s \<Longrightarrow> keeps s s'"
  by (simp add: keeps_def sameHandles_refl)

lemma keeps_trans: "keeps a b \<Longrightarrow> keeps b c \<Longrightarrow> keeps a c"
  unfolding keeps_def by (rule sameHandles_trans)

lemma keeps_notify: "keeps s (snd (notify options p s))"
  by (rule keeps_tr) (rule notify_tr)

lemma keeps_onTransport: "(\<And>t. sameHandles t (snd (f t))) \<Longrightarrow> keeps s (snd (onTransport f s))"
  by (simp add: keeps_def onTransport_tr)

lemma keeps_andThen:
  assumes "keeps s (snd m)" "\<And>x s1. keeps s1 (snd (f x s1))"
  shows "keeps s (snd (andThen m f))"
proof (cases m)
  case (Pair r s1)
  show ?thesis
  proof (cases r)
    case (Returns x)
    with Pair assms(1) assms(2) [of s1 x] show ?thesis
      by (auto simp: andThen_def intro: keeps_trans)
  next
    case (Throws e)
    with Pair assms(1) show ?thesis by (simp add: andThen_def)
  next
    case Blocks
    with Pair assms(1) show ?thesis by (simp add: andThen_def)
  qed
qed

lemma keeps_syncLoop: "keeps s (snd (syncLoop a s))"
proof (induction a s rule: syncLoop.induct)
  case (1 a s)
  show ?case
  proof (cases "a < maxSyncAttempts")
    case False
    then show ?thesis by (subst syncLoop.simps) (simp add: keeps_tr)
  next
    case True
    obtain r t where st: "syncAttempt (tr s) = (r, t)" by (cases "syncAttempt (tr s)")
    with sameHandles_syncAttempt [of "tr s"] have k1: "keeps s (s\<lparr>tr := t\<rparr>)"
      by (simp add: keeps_def)
    have k2: "keeps (s\<lparr>tr := t\<rparr>) (delay 100 (s\<lparr>tr := t\<rparr>))"
      by (simp add: keeps_tr delay_tr)
    show ?thesis
    proof (cases r)
      case (Returns insync)
      show ?thesis
      proof (cases insync)
        case True
        with \<open>a < maxSyncAttempts\<close> st Returns k1 show ?thesis by (subst syncLoop.simps) simp
      next
        case False
        from "1.IH"(1) [OF \<open>a < maxSyncAttempts\<close> st [symmetric] Returns False] k1
        have "keeps s (snd (syncLoop a (s\<lparr>tr := t\<rparr>)))" by (rule keeps_trans [rotated])
        with \<open>a < maxSyncAttempts\<close> st Returns False show ?thesis
          by (subst syncLoop.simps) simp
      qed
    next
      case (Throws e)
      show ?thesis
      proof (cases "maxSyncAttempts \<le> a + 1")
        case True
        with \<open>a < maxSyncAttempts\<close> st Throws k1 show ?thesis by (subst syncLoop.simps) simp
      next
        case False
        from "1.IH"(2) [OF \<open>a < maxSyncAttempts\<close> st [symmetric] Throws False]
          keeps_trans [OF k1 k2]
        have "keeps s (snd (syncLoop (a + 1) (delay 100 (s\<lparr>tr := t\<rparr>))))"
          by (rule keeps_trans [rotated])
        with \<open>a < maxSyncAttempts\<close> st Throws False show ?thesis
          by (subst syncLoop.simps) simp
      qed
    next
      case Blocks
      with \<open>a < maxSyncAttempts\<close> st k1 show ?thesis by (subst syncLoop.simps) simp
    qed
  qed
qed

lemma keeps_uploadLoop: "keeps s (snd (uploadLoop options n i lines s))"
proof (induction lines arbitrary: i s)
  case Nil
  show ?case by (simp add: keeps_tr)
next
  case (Cons line rest)
  let ?p = "\<lparr>stage = Uploading, progress = Interpolated i n, message = UploadingPercent\<rparr>"
  obtain r1 s1 where n1: "notify options ?p s = (r1, s1)" by (cases "notify options ?p s")
  with keeps_notify [of s options ?p] have g1: "keeps s s1" by simp
  show ?case
  proof (cases r1)
    case (Throws e)
    with n1 g1 show ?thesis by simp
  next
    case Blocks
    with n1 g1 show ?thesis by simp
  next
    case (Returns x)
    show ?thesis
    proof (cases "length line < 11")
      case True
      with n1 Returns keeps_trans [OF g1 Cons.IH [of s1 "i + 1"]] show ?thesis by simp
    next
      case False
      show ?thesis
      proof (cases "isDataRecord line")
        case False
        have "keeps s1 (delay 10 s1)" by (simp add: keeps_tr delay_tr)
        from keeps_trans [OF g1 keeps_trans [OF this Cons.IH [of "delay 10 s1" "i + 1"]]]
          n1 Returns False \<open>\<not> length line < 11\<close>
        show ?thesis by simp
      next
        case True
        let ?w = "onTransport (writePage (recordAddressOf line) (dataOf line)) s1"
        obtain r2 s2 where w: "?w = (r2, s2)" by (cases ?w)
        with keeps_onTransport [of "writePage (recordAddressOf line) (dataOf line)" s1]
          sameHandles_writePage
        have g2: "keeps s1 s2" by simp
        have g3: "keeps s2 (delay 10 s2)" by (simp add: keeps_tr delay_tr)
        show ?thesis
        proof (cases r2)
          case (Returns y)
          from keeps_trans [OF g1 keeps_trans [OF g2 keeps_trans [OF g3 Cons.IH [of "delay 10 s2" "i + 1"]]]]
            n1 \<open>r1 = Returns x\<close> True \<open>\<not> length line < 11\<close> w Returns
          show ?thesis by simp
        next
          case (Throws e)
          with keeps_trans [OF g1 g2] n1 \<open>r1 = Returns x\<close> True \<open>\<not> length line < 11\<close> w
          show ?thesis by simp
        next
          case Blocks
          with keeps_trans [OF g1 g2] n1 \<open>r1 = Returns x\<close> True \<open>\<not> length line < 11\<close> w
          show ?thesis by simp
        qed
      qed
    qed
  qed
qed

lemma keeps_afterConnection:
  "keeps s (snd (andThen (enterProgrammingMode options s)
       (\<lambda>_ s2. andThen (uploadHexData (hexData options) options s2)
       (\<lambda>_ s3. andThen (verifyUpload (hexData options) options s3)
       (\<lambda>_ s4. andThen (leaveProgrammingMode options s4)
       (\<lambda>_. notify options
          \<lparr>stage = Complete, progress = Exact 100, message = Literal ''Upload completed successfully!''\<rparr>))))))"
  unfolding enterProgrammingMode_def uploadHexData_def verifyUpload_def leaveProgrammingMode_def
  by (intro keeps_andThen keeps_notify keeps_onTransport keeps_uploadLoop keeps_syncLoop
      sameHandles_exchange keeps_trans [OF keeps_tr [OF delay_tr] keeps_notify])

text \<open>
  On a port with both streams free, \<^verbatim>\<open>initializeConnection\<close> returns with both
  handles held.
\<close>

lemma initializeConnection_acquires:
  assumes "readable port = Available" "writable port = Available"
  shows "\<exists>s1. initializeConnection (Some port) baud s = (Returns (), s1)
           \<and> tr s1 = (tr s)\<lparr>reader := True, writer := True\<rparr>"
  using assms
  by (simp add: initializeConnection_def andThen_def onTransport_def acquireReader_def
      acquireWriter_def delay_def resetArduino_def Let_def split: option.splits)

text \<open>
  What a run that ends does to the two counters, on a port with both streams free:
  \<^verbatim>\<open>reader.cancel()\<close> is called once; \<^verbatim>\<open>writer.close()\<close> is called once when
  that call returns, and not at all when it rejects.
\<close>

lemma release_counts:
  assumes "readable port = Available" "writable port = Available"
    and "fst (uploadSketch port options s) \<noteq> Blocks"
  shows "cancel_calls (tr (snd (uploadSketch port options s))) = cancel_calls (tr s) + 1
       \<and> close_calls (tr (snd (uploadSketch port options s)))
           = close_calls (tr s) + (if cancel_rejects (tr s) then 0 else 1)"
proof -
  from initializeConnection_acquires [OF assms(1,2), of "baudRate options" s]
  obtain s0 where i: "initializeConnection (Some port) (baudRate options) s = (Returns (), s0)"
    and t0: "tr s0 = (tr s)\<lparr>reader := True, writer := True\<rparr>"
    by blast
  obtain r1 s1 where st: "uploadSteps port options s = (r1, s1)"
    by (cases "uploadSteps port options s")
  from keeps_afterConnection [of s0 options] i st have "keeps s0 s1"
    by (simp add: uploadSteps_def andThen_def)
  then have h: "sameHandles ((tr s)\<lparr>reader := True, writer := True\<rparr>) (tr s1)"
    by (simp add: keeps_def t0)
  note f = sameHandles_fields [OF h]
  have c: "cancel_calls (cleanup t) = cancel_calls (tr s) + 1
      \<and> close_calls (cleanup t) = close_calls (tr s) + (if cancel_rejects (tr s) then 0 else 1)"
    if "t = tr s1" for t
    using f unfolding that
    by (simp add: cleanup_def andThen_def cancelReader_def closeWriter_def)
  show ?thesis
  proof (cases r1)
    case (Returns x)
    with st c [of "tr s1"] show ?thesis by (simp add: uploadSketch_def)
  next
    case Blocks
    with st assms(3) show ?thesis by (simp add: uploadSketch_def)
  next
    case (Throws e)
    show ?thesis
    proof (cases "onProgress options")
      case None
      with st Throws c [of "tr s1"] show ?thesis by (simp add: uploadSketch_def)
    next
      case (Some cb)
      show ?thesis
      proof (cases "errorText e s1")
        case (Returns m)
        let ?p = "\<lparr>stage = Error, progress = Exact 0, message = m\<rparr>"
        obtain r2 s2 where n: "notify options ?p s1 = (r2, s2)" by (cases "notify options ?p s1")
        with notify_tr [of options ?p s1] have "tr s2 = tr s1" by simp
        with c [of "tr s2"] st Throws Some Returns n assms(3) show ?thesis
          by (cases r2) (simp_all add: uploadSketch_def)
      next
        case (Throws e')
        with st \<open>r1 = Throws e\<close> Some c [of "tr s1"] show ?thesis
          by (simp add: uploadSketch_def)
      next
        case Blocks
        then show ?thesis by (simp add: errorText_def split: if_splits)
      qed
    qed
  qed
qed


text \<open>
  C1. The claim has both handles released exactly once in every run. Here the
  readable stream has failed: every read rejects, so the sync fails after ten thrown
  attempts, and \<^verbatim>\<open>reader.cancel()\<close> rejects as well. \<^verbatim>\<open>uploadSketch\<close> returns
  false; \<^verbatim>\<open>cleanup\<close> has called \<^verbatim>\<open>reader.cancel()\<close> once and
  \<^verbatim>\<open>writer.close()\<close> not at all, and both fields still hold their handles.
\<close>

theorem cleanup_leaves_writer_open:
  "(case uploadSketch goodPort (plainOptions [])
      (freshRun ((freshTransport
         [Rejects, Rejects, Rejects, Rejects, Rejects, Rejects, Rejects, Rejects, Rejects, Rejects])
         \<lparr>cancel_rejects := True\<rparr>)) of
      (r, s) \<Rightarrow>
        r = Returns False \<and> cancel_calls (tr s) = 1 \<and> close_calls (tr s) = 0
        \<and> writer (tr s) \<and> reader (tr s))"
  by (simp add: run_defs freshRun_def freshTransport_def goodPort_def plainOptions_def)

end
